theory Spec2Isabelle
  imports Complex_Main "HOL-Library.Multiset"
begin

text \<open>
  The tuning engine of \<open>src/App.tsx\<close>, embedded function by function.

  Inside the tuning functions a JavaScript number is modelled by a real number. Rounding to
  IEEE doubles is not represented: arithmetic is exact, \<open>Math.log x / LOG2\<close> is
  \<open>ln x / ln 2\<close>, and \<open>Math.pow x y\<close> is \<open>x powr y\<close> (every base in the engine is positive).
  The parser and the comparator, which can meet \<open>Infinity\<close> and \<open>NaN\<close>, compute with the
  type \<open>number\<close> that adds these values to the reals.
  The remainder operator \<open>%\<close> truncates towards zero (\<open>js_rem\<close>), \<open>Math.round\<close> is
  \<open>\<lfloor>x + 1 / 2\<rfloor>\<close>, and \<open>Math.floor\<close> is the floor. The numbers that the engine rounds,
  reduces and prints as fractions are integers at every call site and are modelled by
  \<open>int\<close>.

  A string is a list of characters; a character stands for a UTF-16 code unit below 256.
  \<open>Number\<close> gives the mathematical value of a numeric literal, an infinity for the literal
  \<open>Infinity\<close> with its sign, and \<open>NaN\<close> for every other string.

  The three module-level memoization caches are maps from the integer key to the stored
  result; a memoized function takes the cache and returns it with its result. The entries
  stored under a key that is not finite are kept in a second map for each cache. A value that
  may be \<open>null\<close> or \<open>undefined\<close> is an \<open>option\<close>, and the one exception that the
  comparator can raise is a value of the type \<open>error\<close>.
\<close>

section \<open>Numbers\<close>

definition LOG2 :: real where
  "LOG2 = ln 2"

definition toCents :: "real \<Rightarrow> real" where
  "toCents ratio = 1200 * ln ratio / LOG2"

definition fromCents :: "real \<Rightarrow> real" where
  "fromCents cents = 2 powr (cents / 1200)"

definition log2 :: "real \<Rightarrow> real" where
  "log2 x = ln x / LOG2"

text \<open>
  The remainder \<open>a % n\<close> of JavaScript: \<open>a\<close> minus \<open>n\<close> times the quotient truncated
  towards zero, so that the result has the sign of \<open>a\<close>.
\<close>

definition js_trunc :: "real \<Rightarrow> int" where
  "js_trunc x = (if 0 \<le> x then \<lfloor>x\<rfloor> else \<lceil>x\<rceil>)"

definition js_rem :: "real \<Rightarrow> real \<Rightarrow> real" where
  "js_rem a n = a - n * of_int (js_trunc (a / n))"

definition Math_round :: "real \<Rightarrow> int" where
  "Math_round x = \<lfloor>x + 1 / 2\<rfloor>"

definition signedDelta :: "real \<Rightarrow> real \<Rightarrow> real" where
  "signedDelta refCents targetCents =
     (let d = targetCents - refCents
      in js_rem (js_rem (d + 600) 1200 + 1200) 1200 - 600)"

definition Math_pow :: "real \<Rightarrow> real \<Rightarrow> real" where
  "Math_pow x y = x powr y"

text \<open>
  \<open>gcdInt\<close> takes absolute values and runs Euclid's loop; \<open>a || 1\<close> replaces a zero result
  by 1. \<open>reduceFraction\<close> divides both numbers by it; the divisions are exact
  (\<open>gcdInt_dvd\<close> below), so they are integer divisions here.
\<close>

function gcd_loop :: "nat \<Rightarrow> nat \<Rightarrow> nat" where
  "gcd_loop a b = (if b \<noteq> 0 then gcd_loop b (a mod b) else a)"
  by pat_completeness auto
termination
  by (relation "measure snd") auto

declare gcd_loop.simps [simp del]

definition gcdInt :: "int \<Rightarrow> int \<Rightarrow> int" where
  "gcdInt a b =
     (let a' = nat \<bar>a\<bar>; b' = nat \<bar>b\<bar>; g = gcd_loop a' b'
      in if g \<noteq> 0 then int g else 1)"

definition reduceFraction :: "int \<Rightarrow> int \<Rightarrow> int \<times> int" where
  "reduceFraction numer denom =
     (let g = gcdInt numer denom in (numer div g, denom div g))"

section \<open>Numbers that are not real\<close>

text \<open>
  \<open>Number\<close> reads the literal \<open>Infinity\<close>, \<open>parseNoteOrHz\<close> accepts it as a frequency, and
  the comparator computes with it. There a JavaScript number is a value of the type
  \<open>number\<close>: a real number, one of the two infinities, or \<open>NaN\<close>. The operations are those
  of IEEE arithmetic without rounding; zero has no sign and counts as \<open>+0\<close>, so a positive
  number divided by zero is \<open>Infinity\<close>.
\<close>

datatype number = Finite real | PosInfinity | NegInfinity | NaN

definition isNaN :: "number \<Rightarrow> bool" where
  "isNaN x = (x = NaN)"

text \<open>
  \<open>js_positive x\<close> is \<open>x > 0\<close>, and \<open>js_falsy x\<close> is \<open>!x\<close>: true of zero and of \<open>NaN\<close>.
\<close>

definition js_positive :: "number \<Rightarrow> bool" where
  "js_positive x = (case x of Finite r \<Rightarrow> 0 < r | PosInfinity \<Rightarrow> True | _ \<Rightarrow> False)"

definition js_falsy :: "number \<Rightarrow> bool" where
  "js_falsy x = (case x of Finite r \<Rightarrow> r = 0 | NaN \<Rightarrow> True | _ \<Rightarrow> False)"

definition js_neg :: "number \<Rightarrow> number" where
  "js_neg x =
     (case x of
        Finite r \<Rightarrow> Finite (- r)
      | PosInfinity \<Rightarrow> NegInfinity
      | NegInfinity \<Rightarrow> PosInfinity
      | NaN \<Rightarrow> NaN)"

fun js_mul :: "number \<Rightarrow> number \<Rightarrow> number" where
  "js_mul (Finite x) (Finite y) = Finite (x * y)"
| "js_mul (Finite x) PosInfinity =
     (if x = 0 then NaN else if 0 < x then PosInfinity else NegInfinity)"
| "js_mul (Finite x) NegInfinity =
     (if x = 0 then NaN else if 0 < x then NegInfinity else PosInfinity)"
| "js_mul PosInfinity (Finite y) =
     (if y = 0 then NaN else if 0 < y then PosInfinity else NegInfinity)"
| "js_mul NegInfinity (Finite y) =
     (if y = 0 then NaN else if 0 < y then NegInfinity else PosInfinity)"
| "js_mul PosInfinity PosInfinity = PosInfinity"
| "js_mul PosInfinity NegInfinity = NegInfinity"
| "js_mul NegInfinity PosInfinity = NegInfinity"
| "js_mul NegInfinity NegInfinity = PosInfinity"
| "js_mul x y = NaN"

fun js_div :: "number \<Rightarrow> number \<Rightarrow> number" where
  "js_div (Finite x) (Finite y) =
     (if y \<noteq> 0 then Finite (x / y)
      else if x = 0 then NaN else if 0 < x then PosInfinity else NegInfinity)"
| "js_div (Finite x) PosInfinity = Finite 0"
| "js_div (Finite x) NegInfinity = Finite 0"
| "js_div PosInfinity (Finite y) = (if 0 \<le> y then PosInfinity else NegInfinity)"
| "js_div NegInfinity (Finite y) = (if 0 \<le> y then NegInfinity else PosInfinity)"
| "js_div x y = NaN"

text \<open>
  \<open>Math.log\<close> is \<open>-Infinity\<close> at zero and \<open>NaN\<close> below it, so \<open>log2\<close> and \<open>toCents\<close>, which
  multiply and divide the logarithm by positive constants, are so too. \<open>Math_pow_2 y\<close> is
  \<open>Math.pow(2, y)\<close>. A circular difference with an operand that is not finite has a
  difference \<open>d\<close> that is not finite, and the remainder of such a \<open>d\<close> is \<open>NaN\<close>.
\<close>

definition log2_number :: "number \<Rightarrow> number" where
  "log2_number x =
     (case x of
        Finite r \<Rightarrow> if 0 < r then Finite (log2 r) else if r = 0 then NegInfinity else NaN
      | PosInfinity \<Rightarrow> PosInfinity
      | NegInfinity \<Rightarrow> NaN
      | NaN \<Rightarrow> NaN)"

definition toCents_number :: "number \<Rightarrow> number" where
  "toCents_number ratio =
     (case ratio of
        Finite r \<Rightarrow> if 0 < r then Finite (toCents r) else if r = 0 then NegInfinity else NaN
      | PosInfinity \<Rightarrow> PosInfinity
      | NegInfinity \<Rightarrow> NaN
      | NaN \<Rightarrow> NaN)"

definition Math_floor :: "number \<Rightarrow> number" where
  "Math_floor x = (case x of Finite r \<Rightarrow> Finite (of_int \<lfloor>r\<rfloor>) | _ \<Rightarrow> x)"

definition Math_pow_2 :: "number \<Rightarrow> number" where
  "Math_pow_2 y =
     (case y of
        Finite r \<Rightarrow> Finite (Math_pow 2 r)
      | PosInfinity \<Rightarrow> PosInfinity
      | NegInfinity \<Rightarrow> Finite 0
      | NaN \<Rightarrow> NaN)"

definition signedDelta_number :: "number \<Rightarrow> number \<Rightarrow> number" where
  "signedDelta_number refCents targetCents =
     (case (refCents, targetCents) of
        (Finite r, Finite t) \<Rightarrow> Finite (signedDelta r t)
      | _ \<Rightarrow> NaN)"

section \<open>Strings\<close>

fun index_of :: "char \<Rightarrow> string \<Rightarrow> nat" where
  "index_of c [] = 0"
| "index_of c (d # ds) = (if c = d then 0 else Suc (index_of c ds))"

definition isDigit :: "char \<Rightarrow> bool" where
  "isDigit c = (index_of c ''0123456789'' < 10)"

definition hexVal :: "char \<Rightarrow> nat" where
  "hexVal c =
     (let i = index_of c ''0123456789abcdef''
      in if i < 16 then i else index_of c ''0123456789ABCDEF'')"

definition digitsVal :: "nat \<Rightarrow> string \<Rightarrow> nat" where
  "digitsVal base ds = foldl (\<lambda>acc c. acc * base + hexVal c) 0 ds"

text \<open>
  Printing. \<open>showInt\<close> is the decimal string of an integer as a template literal prints
  it, \<open>showNumber\<close> the same for a number that holds an integer, and \<open>toFixed\<close> the
  fixed-point string of \<open>Number.prototype.toFixed\<close> (nearest multiple of \<open>10^-f\<close>, ties to
  the larger magnitude). Magnitudes of \<open>10^21\<close> and more, which JavaScript prints in
  exponential notation, do not occur in the engine.
\<close>

fun digits10 :: "nat \<Rightarrow> string" where
  "digits10 n =
     (if n < 10 then [''0123456789'' ! n]
      else digits10 (n div 10) @ [''0123456789'' ! (n mod 10)])"

declare digits10.simps [simp del]

definition showInt :: "int \<Rightarrow> string" where
  "showInt i = (if i < 0 then CHR ''-'' # digits10 (nat (- i)) else digits10 (nat i))"

definition showNumber :: "real \<Rightarrow> string" where
  "showNumber x = showInt \<lfloor>x\<rfloor>"

definition toFixed :: "real \<Rightarrow> nat \<Rightarrow> string" where
  "toFixed x f =
     (let m = digits10 (nat \<lfloor>\<bar>x\<bar> * 10 ^ f + 1 / 2\<rfloor>);
          z = replicate (Suc f - length m) CHR ''0'' @ m;
          m' = (if f = 0 then m
                else take (length z - f) z @ ''.'' @ drop (length z - f) z)
      in if x < 0 then CHR ''-'' # m' else m')"

text \<open>
  \<open>toFixed\<close> and the conversion to a string inside a template literal, for a \<open>number\<close>.
\<close>

definition nonFiniteName :: "number \<Rightarrow> string" where
  "nonFiniteName x =
     (case x of
        PosInfinity \<Rightarrow> ''Infinity''
      | NegInfinity \<Rightarrow> ''-Infinity''
      | _ \<Rightarrow> ''NaN'')"

definition Number_toFixed :: "number \<Rightarrow> nat \<Rightarrow> string" where
  "Number_toFixed x f = (case x of Finite r \<Rightarrow> toFixed r f | _ \<Rightarrow> nonFiniteName x)"

definition String_number :: "number \<Rightarrow> string" where
  "String_number x = (case x of Finite r \<Rightarrow> showNumber r | _ \<Rightarrow> nonFiniteName x)"

definition formatRatio :: "int \<Rightarrow> int \<Rightarrow> string" where
  "formatRatio numer denom =
     (if denom = 1 then showInt numer @ ''/1''
      else showInt numer @ ''/'' @ showInt denom)"

definition isWhiteSpace :: "char \<Rightarrow> bool" where
  "isWhiteSpace c =
     (c \<in> set [CHR 0x09, CHR 0x0A, CHR 0x0B, CHR 0x0C, CHR 0x0D, CHR 0x20, CHR 0xA0])"

definition js_trim :: "string \<Rightarrow> string" where
  "js_trim s = rev (dropWhile isWhiteSpace (rev (dropWhile isWhiteSpace s)))"

fun replace_comma :: "string \<Rightarrow> string" where
  "replace_comma [] = []"
| "replace_comma (c # cs) =
     (if c = CHR '','' then CHR ''.'' # cs else c # replace_comma cs)"

text \<open>
  \<open>Number\<close> follows the grammar of string numeric literals: an optional sign and either
  the word \<open>Infinity\<close> or a decimal literal with optional fraction and exponent, or an
  unsigned binary, octal or hexadecimal literal; the empty string is 0.
\<close>

definition unsignedInteger :: "string \<Rightarrow> int option" where
  "unsignedInteger ds =
     (if ds \<noteq> [] \<and> list_all isDigit ds then Some (int (digitsVal 10 ds)) else None)"

definition signedInteger :: "string \<Rightarrow> int option" where
  "signedInteger s =
     (case s of
        [] \<Rightarrow> None
      | c # r \<Rightarrow>
          if c = CHR ''+'' then unsignedInteger r
          else if c = CHR ''-'' then map_option uminus (unsignedInteger r)
          else unsignedInteger s)"

definition exponentPart :: "string \<Rightarrow> int option" where
  "exponentPart s =
     (case s of
        [] \<Rightarrow> Some 0
      | c # r \<Rightarrow> if c = CHR ''e'' \<or> c = CHR ''E'' then signedInteger r else None)"

definition decimalValue :: "string \<Rightarrow> string \<Rightarrow> int \<Rightarrow> real" where
  "decimalValue ip fp e =
     (of_nat (digitsVal 10 ip) + of_nat (digitsVal 10 fp) / 10 ^ length fp) * 10 powi e"

definition decimalLiteral :: "string \<Rightarrow> real option" where
  "decimalLiteral s =
     (let ip = takeWhile isDigit s; r1 = dropWhile isDigit s
      in case r1 of
           [] \<Rightarrow> if ip = [] then None else Some (decimalValue ip [] 0)
         | c # r \<Rightarrow>
             if c = CHR ''.'' then
               (let fp = takeWhile isDigit r; r2 = dropWhile isDigit r
                in if ip = [] \<and> fp = [] then None
                   else map_option (decimalValue ip fp) (exponentPart r2))
             else if ip = [] then None
             else map_option (decimalValue ip []) (exponentPart r1))"

definition radixLiteral :: "string \<Rightarrow> real option" where
  "radixLiteral s =
     (case s of
        z # x # ds \<Rightarrow>
          if z = CHR ''0'' \<and> ds \<noteq> [] then
            (if (x = CHR ''x'' \<or> x = CHR ''X'') \<and> list_all (\<lambda>c. hexVal c < 16) ds
               then Some (of_nat (digitsVal 16 ds))
             else if (x = CHR ''o'' \<or> x = CHR ''O'') \<and> list_all (\<lambda>c. hexVal c < 8) ds
               then Some (of_nat (digitsVal 8 ds))
             else if (x = CHR ''b'' \<or> x = CHR ''B'') \<and> list_all (\<lambda>c. hexVal c < 2) ds
               then Some (of_nat (digitsVal 2 ds))
             else None)
          else None
      | _ \<Rightarrow> None)"

definition strUnsignedDecimal :: "string \<Rightarrow> number" where
  "strUnsignedDecimal s =
     (if s = ''Infinity'' then PosInfinity
      else (case decimalLiteral s of None \<Rightarrow> NaN | Some v \<Rightarrow> Finite v))"

definition Number :: "string \<Rightarrow> number" where
  "Number str =
     (let s = js_trim str
      in case s of
           [] \<Rightarrow> Finite 0
         | c # r \<Rightarrow>
             (case radixLiteral s of
                Some v \<Rightarrow> Finite v
              | None \<Rightarrow>
                  if c = CHR ''+'' then strUnsignedDecimal r
                  else if c = CHR ''-'' then js_neg (strUnsignedDecimal r)
                  else strUnsignedDecimal s))"

text \<open>
  \<open>parseInt10\<close> is \<open>parseInt(s, 10)\<close>: leading white space, an optional sign and the longest
  prefix of digits; \<open>None\<close> stands for \<open>NaN\<close>. \<open>split_on\<close> is \<open>split\<close> with a one-character
  separator.
\<close>

definition parseInt10 :: "string \<Rightarrow> int option" where
  "parseInt10 str =
     (let s = dropWhile isWhiteSpace str;
          neg = (case s of [] \<Rightarrow> False | c # r \<Rightarrow> c = CHR ''-'');
          s' = (case s of [] \<Rightarrow> [] | c # r \<Rightarrow> if c = CHR ''+'' \<or> c = CHR ''-'' then r else s);
          ds = takeWhile isDigit s'
      in if ds = [] then None
         else Some (if neg then - int (digitsVal 10 ds) else int (digitsVal 10 ds)))"

fun split_on :: "char \<Rightarrow> string \<Rightarrow> string list" where
  "split_on sep [] = [[]]"
| "split_on sep (c # cs) =
     (if c = sep then [] # split_on sep cs
      else (case split_on sep cs of
              [] \<Rightarrow> [[c]]
            | w # ws \<Rightarrow> (c # w) # ws))"

definition toUpperCase :: "char \<Rightarrow> char" where
  "toUpperCase c =
     (let i = index_of c ''abcdefghijklmnopqrstuvwxyz''
      in if i < 26 then ''ABCDEFGHIJKLMNOPQRSTUVWXYZ'' ! i else c)"

section \<open>Note names and frequencies\<close>

definition NOTE_INDEX :: "(string \<times> int) list" where
  "NOTE_INDEX =
     [(''C'', 0), (''C#'', 1), (''Db'', 1), (''D'', 2), (''D#'', 3), (''Eb'', 3), (''E'', 4),
      (''F'', 5), (''F#'', 6), (''Gb'', 6), (''G'', 7), (''G#'', 8), (''Ab'', 8), (''A'', 9),
      (''A#'', 10), (''Bb'', 10), (''B'', 11)]"

record parsed =
  freq :: "number option"
  label :: string
  midi :: "int option"
  pc :: "int option"

text \<open>
  \<open>note_match\<close> is the match of \<open>/^([A-Ga-g])([#b]?)(-?\d+)$/\<close> and returns the three
  groups. In \<open>parseNoteOrHz\<close> the third group always parses as an integer, so the
  alternative for \<open>NaN\<close> there is never taken.
\<close>

definition note_match :: "string \<Rightarrow> (char \<times> string \<times> string) option" where
  "note_match s =
     (case s of
        [] \<Rightarrow> None
      | L # r \<Rightarrow>
          if index_of L ''ABCDEFGabcdefg'' < 14 then
            (let acc = (case r of
                          [] \<Rightarrow> []
                        | c # r2 \<Rightarrow> if c = CHR ''#'' \<or> c = CHR ''b'' then [c] else []);
                 octStr = drop (length acc) r;
                 ds = (case octStr of
                         [] \<Rightarrow> []
                       | c # r3 \<Rightarrow> if c = CHR ''-'' then r3 else octStr)
             in if ds \<noteq> [] \<and> list_all isDigit ds then Some (L, acc, octStr) else None)
          else None)"

definition jsi_rem :: "int \<Rightarrow> int \<Rightarrow> int" where
  "jsi_rem a n = sgn a * (\<bar>a\<bar> mod \<bar>n\<bar>)"

definition parseNoteOrHz :: "string \<Rightarrow> real \<Rightarrow> parsed" where
  "parseNoteOrHz input a =
     (let s = js_trim input;
          asNum = Number (replace_comma s)
      in if \<not> isNaN asNum \<and> js_positive asNum then
           \<lparr>freq = Some asNum, label = Number_toFixed asNum 6 @ '' Hz'', midi = None, pc = None\<rparr>
         else
             (case note_match s of
                None \<Rightarrow> \<lparr>freq = None, label = [], midi = None, pc = None\<rparr>
              | Some (L, acc, octStr) \<Rightarrow>
                  (let letter = toUpperCase L;
                       name = (if acc \<noteq> [] then letter # acc else [letter])
                   in case map_of NOTE_INDEX name of
                        None \<Rightarrow> \<lparr>freq = None, label = [], midi = None, pc = None\<rparr>
                      | Some idx \<Rightarrow>
                          (let octave = (case parseInt10 octStr of None \<Rightarrow> 0 | Some v \<Rightarrow> v);
                               m = (octave + 1) * 12 + idx;
                               f = a * Math_pow 2 (of_int (m - 69) / 12)
                           in \<lparr>freq = Some (Finite f),
                               label = letter # acc @ showInt octave,
                               midi = Some m,
                               pc = Some (jsi_rem (jsi_rem m 12 + 12) 12)\<rparr>))))"

section \<open>Equal temperament\<close>

record equalRes =
  eq_cents :: real
  eq_ratio :: real
  eq_steps :: int

definition equalTempNearest :: "real \<Rightarrow> equalRes" where
  "equalTempNearest centsJust =
     (let n = Math_round (centsJust / 100);
          cents = of_int n * 100;
          ratio = fromCents cents
      in \<lparr>eq_cents = cents, eq_ratio = ratio, eq_steps = n\<rparr>)"

section \<open>Pythagorean 3-limit\<close>

record pythRes =
  p_cents :: real
  p_ratio :: real
  p_fraction :: string

record pythBest =
  pb_b :: int
  pb_a :: int
  pb_cents :: real
  pb_ratio :: real
  pb_err :: "real option"

fun pyth_loop :: "real \<Rightarrow> int list \<Rightarrow> pythBest \<Rightarrow> pythBest" where
  "pyth_loop centsTarget [] best = best"
| "pyth_loop centsTarget (b # bs) best =
     (let pow3 = Math_pow 3 (of_int b);
          a = \<lfloor>log2 pow3\<rfloor>;
          r = pow3 / Math_pow 2 (of_int a);
          c0 = toCents r;
          c = js_rem (js_rem c0 1200 + 1200) 1200;
          err = \<bar>signedDelta centsTarget c\<bar>
      in pyth_loop centsTarget bs
           (if (case pb_err best of None \<Rightarrow> True | Some e \<Rightarrow> err < e)
            then \<lparr>pb_b = b, pb_a = a, pb_cents = c, pb_ratio = r, pb_err = Some err\<rparr>
            else best))"

definition pyth_fraction :: "pythBest \<Rightarrow> string" where
  "pyth_fraction best =
     (let b = pb_b best; a = pb_a best;
          (numer, denom) =
            (if b \<ge> 0 \<and> a \<ge> 0 then (Math_pow 3 (of_int b), Math_pow 2 (of_int a))
             else if b \<ge> 0 \<and> a < 0 then (Math_pow 3 (of_int b) * Math_pow 2 (of_int (- a)), 1)
             else if b < 0 \<and> a \<ge> 0 then (1, Math_pow 3 (of_int (- b)) * Math_pow 2 (of_int a))
             else (Math_pow 2 (of_int (- a)), Math_pow 3 (of_int (- b))));
          (rn, rd) = reduceFraction (Math_round numer) (Math_round denom)
      in formatRatio rn rd)"

definition pyth_search :: "real \<Rightarrow> pythRes" where
  "pyth_search centsTarget =
     (let best = pyth_loop centsTarget [- 11 .. 11]
                   \<lparr>pb_b = 0, pb_a = 0, pb_cents = 0, pb_ratio = 1, pb_err = None\<rparr>
      in \<lparr>p_cents = pb_cents best, p_ratio = pb_ratio best, p_fraction = pyth_fraction best\<rparr>)"

definition nearestPythagorean ::
  "(int \<rightharpoonup> pythRes) \<Rightarrow> real \<Rightarrow> pythRes \<times> (int \<rightharpoonup> pythRes)" where
  "nearestPythagorean cache centsTarget =
     (let key = Math_round (centsTarget * 1000)
      in case cache key of
           Some hit \<Rightarrow> (hit, cache)
         | None \<Rightarrow> (let res = pyth_search centsTarget in (res, cache(key \<mapsto> res))))"

section \<open>Werckmeister III\<close>

fun w3_accumulate :: "real list \<Rightarrow> real \<Rightarrow> real list \<Rightarrow> real list" where
  "w3_accumulate [] acc cents = cents"
| "w3_accumulate (s # ss) acc cents =
     (let acc' = acc + s;
          pos = js_rem acc' 1200;
          pos' = (if pos < 0 then pos + 1200 else pos)
      in w3_accumulate ss acc' (cents @ [pos']))"

definition w3_sizes :: "real list" where
  "w3_sizes =
     (let pureFifth = toCents (3 / 2);
          pythComma = 1200 * ln (531441 / 524288) / LOG2;
          quarterComma = pythComma / 4;
          temperedFifth = pureFifth - quarterComma
      in [temperedFifth, temperedFifth, temperedFifth, temperedFifth,
          pureFifth, pureFifth, pureFifth, pureFifth, pureFifth, pureFifth, pureFifth, pureFifth])"

definition werckmeisterIIIPositions :: "real list" where
  "werckmeisterIIIPositions =
     (let cents = w3_accumulate (take 11 w3_sizes) 0 [0];
          unique = map (\<lambda>x. js_rem (x + 1200) 1200) cents
      in sort unique)"

text \<open>
  The result of the matcher. For an empty position list \<open>positions[0]\<close> is \<open>undefined\<close>
  and the matcher returns \<open>{cents: undefined, ratio: NaN}\<close>, which is \<open>W3Undefined\<close>.
\<close>

datatype w3Res = W3Res (w3_cents: real) (w3_ratio: real) | W3Undefined

record w3Best =
  wb_idx :: nat
  wb_cents :: real
  wb_err :: real

fun w3_loop :: "real \<Rightarrow> real list \<Rightarrow> nat \<Rightarrow> w3Best \<Rightarrow> w3Best" where
  "w3_loop centsTarget [] i best = best"
| "w3_loop centsTarget (p # ps) i best =
     (let err0 = \<bar>p - centsTarget\<bar>;
          err = (if err0 > 600 then 1200 - err0 else err0)
      in w3_loop centsTarget ps (Suc i)
           (if err < wb_err best then \<lparr>wb_idx = i, wb_cents = p, wb_err = err\<rparr> else best))"

definition w3_search :: "real \<Rightarrow> real list \<Rightarrow> w3Res" where
  "w3_search centsTarget positions =
     (case positions of
        [] \<Rightarrow> W3Undefined
      | p0 # ps \<Rightarrow>
          (let best = w3_loop centsTarget ps 1
                        \<lparr>wb_idx = 0, wb_cents = p0, wb_err = \<bar>p0 - centsTarget\<bar>\<rparr>
           in W3Res (wb_cents best) (fromCents (wb_cents best))))"

definition nearestWerckmeister ::
  "(int \<rightharpoonup> w3Res) \<Rightarrow> real \<Rightarrow> real list \<Rightarrow> w3Res \<times> (int \<rightharpoonup> w3Res)" where
  "nearestWerckmeister cache centsTarget positions =
     (let key = Math_round (centsTarget * 1000)
      in case cache key of
           Some hit \<Rightarrow> (hit, cache)
         | None \<Rightarrow> (let res = w3_search centsTarget positions in (res, cache(key \<mapsto> res))))"

section \<open>Just intonation\<close>

record justEntry =
  je_name :: string
  je_frac :: "int \<times> int"

definition JUST_SET :: "justEntry list" where
  "JUST_SET =
     [\<lparr>je_name = ''1/1 (un'' @ [CHR 0xED] @ ''sono)'', je_frac = (1, 1)\<rparr>,
      \<lparr>je_name = ''16/15 (2m)'', je_frac = (16, 15)\<rparr>,
      \<lparr>je_name = ''10/9 (2m)'', je_frac = (10, 9)\<rparr>,
      \<lparr>je_name = ''9/8 (2M)'', je_frac = (9, 8)\<rparr>,
      \<lparr>je_name = ''6/5 (3m)'', je_frac = (6, 5)\<rparr>,
      \<lparr>je_name = ''5/4 (3M)'', je_frac = (5, 4)\<rparr>,
      \<lparr>je_name = ''4/3 (4J)'', je_frac = (4, 3)\<rparr>,
      \<lparr>je_name = ''45/32 (TT)'', je_frac = (45, 32)\<rparr>,
      \<lparr>je_name = ''3/2 (5J)'', je_frac = (3, 2)\<rparr>,
      \<lparr>je_name = ''8/5 (6m)'', je_frac = (8, 5)\<rparr>,
      \<lparr>je_name = ''5/3 (6M)'', je_frac = (5, 3)\<rparr>,
      \<lparr>je_name = ''16/9 (7m)'', je_frac = (16, 9)\<rparr>,
      \<lparr>je_name = ''15/8 (7M)'', je_frac = (15, 8)\<rparr>]"

record justRes =
  j_name :: string
  j_frac :: "int \<times> int"
  j_cents :: real

record justBest =
  jb_name :: string
  jb_frac :: "int \<times> int"
  jb_cents :: real
  jb_err :: real

definition just_cents :: "justEntry \<Rightarrow> real" where
  "just_cents j = toCents (of_int (fst (je_frac j)) / of_int (snd (je_frac j)))"

fun just_loop :: "real \<Rightarrow> justEntry list \<Rightarrow> justBest \<Rightarrow> justBest" where
  "just_loop centsTarget [] best = best"
| "just_loop centsTarget (j # js) best =
     (let c = just_cents j;
          err = \<bar>signedDelta centsTarget c\<bar>
      in just_loop centsTarget js
           (if err < jb_err best
            then \<lparr>jb_name = je_name j, jb_frac = je_frac j, jb_cents = c, jb_err = err\<rparr>
            else best))"

definition just_search :: "real \<Rightarrow> justRes" where
  "just_search centsTarget =
     (let best = just_loop centsTarget JUST_SET
                   \<lparr>jb_name = [], jb_frac = (1, 1), jb_cents = 0, jb_err = 1000000000\<rparr>
      in \<lparr>j_name = jb_name best, j_frac = jb_frac best, j_cents = jb_cents best\<rparr>)"

definition nearestJust ::
  "(int \<rightharpoonup> justRes) \<Rightarrow> real \<Rightarrow> justRes \<times> (int \<rightharpoonup> justRes)" where
  "nearestJust cache centsTarget =
     (let key = Math_round (centsTarget * 1000)
      in case cache key of
           Some hit \<Rightarrow> (hit, cache)
         | None \<Rightarrow> (let res = just_search centsTarget in (res, cache(key \<mapsto> res))))"

section \<open>Interval comparator\<close>

text \<open>
  The body of the \<open>useMemo\<close> callback that computes the rows of \<open>Comparador\<close>. The values
  it closes over are the record \<open>props\<close>; the list of targets is its argument. Reading
  \<open>w.cents.toFixed\<close> on the result \<open>W3Undefined\<close> raises a \<open>TypeError\<close>.

  The cents of a target are \<open>NaN\<close> when its frequency is \<open>Infinity\<close>, and \<open>Math.round\<close> then
  gives the key \<open>NaN\<close>. The maps \<open>justCacheNF\<close>, \<open>pythCacheNF\<close> and \<open>w3CacheNF\<close> hold the
  entries that the three caches store under a key that is not finite.
\<close>

datatype system = Just | Equal | Pyth | W3

datatype distanceMode = Previous | First

datatype error = TypeError

record caches =
  justCache :: "int \<rightharpoonup> justRes"
  pythCache :: "int \<rightharpoonup> pythRes"
  w3Cache :: "int \<rightharpoonup> w3Res"
  justCacheNF :: "number \<rightharpoonup> justRes"
  pythCacheNF :: "number \<rightharpoonup> pythRes"
  w3CacheNF :: "number \<rightharpoonup> w3Res"

record props =
  c_a4 :: real
  c_fFund :: number
  c_sys :: system
  c_w3Positions :: "real list"
  c_realOct :: bool
  c_distMode :: distanceMode

record row =
  target :: string
  hzTarget :: number
  centsEI :: number
  ratioRed :: number
  sysName :: string
  sysFrac :: string
  sysCents :: number
  sysHz :: number
  dev :: number
  distFrac :: "string option"
  distCents :: "number option"

record projection =
  pj_ratio :: number
  pj_cents :: number
  pj_name :: string
  pj_frac :: string
  pj_fracPair :: "(int \<times> int) option"

definition toInt32 :: "real \<Rightarrow> int" where
  "toInt32 x =
     (let m = js_trunc x mod 4294967296
      in if m \<ge> 2147483648 then m - 4294967296 else m)"

definition toInt32_number :: "number \<Rightarrow> int" where
  "toInt32_number x = (case x of Finite r \<Rightarrow> toInt32 r | _ \<Rightarrow> 0)"

definition Comparador_fFund :: "string \<Rightarrow> real \<Rightarrow> number" where
  "Comparador_fFund fund a =
     (case freq (parseNoteOrHz fund a) of None \<Rightarrow> Finite 440 | Some f \<Rightarrow> f)"

text \<open>
  The four tuning functions at a \<open>number\<close>. At a finite target they are the functions of
  the sections above. At a target that is not finite:

  \<^item> \<open>equalTempNearest\<close>: \<open>Math.round\<close> returns its argument, so the steps and the cents are
    the target, and the ratio is \<open>Math.pow(2, cents / 1200)\<close>;

  \<^item> \<open>nearestJust\<close> and \<open>nearestPythagorean\<close>: the key is the target; on a miss every
    \<open>err\<close> is \<open>NaN\<close>, no comparison \<open>err < best.err\<close> holds, and the result is made of the
    initial \<open>best\<close>;

  \<^item> \<open>nearestWerckmeister\<close>: the key is the target. On a miss at \<open>NaN\<close> every \<open>err\<close> is
    \<open>NaN\<close> and the first position stays. On a miss at an infinity the initial \<open>err\<close> is
    \<open>Infinity\<close>, the second position gets \<open>1200 - Infinity\<close>, which is less, and no later
    position is less than that.
\<close>

record equalResNumber =
  eqn_cents :: number
  eqn_ratio :: number
  eqn_steps :: number

definition equalTempNearest_number :: "number \<Rightarrow> equalResNumber" where
  "equalTempNearest_number centsJust =
     (case centsJust of
        Finite c \<Rightarrow>
          (let eq = equalTempNearest c
           in \<lparr>eqn_cents = Finite (eq_cents eq), eqn_ratio = Finite (eq_ratio eq),
               eqn_steps = Finite (of_int (eq_steps eq))\<rparr>)
      | _ \<Rightarrow>
          \<lparr>eqn_cents = centsJust,
           eqn_ratio = Math_pow_2 (js_div centsJust (Finite 1200)),
           eqn_steps = centsJust\<rparr>)"

definition nearestJust_number :: "caches \<Rightarrow> number \<Rightarrow> justRes \<times> caches" where
  "nearestJust_number cs centsTarget =
     (case centsTarget of
        Finite c \<Rightarrow>
          (let (j, jc) = nearestJust (justCache cs) c in (j, cs\<lparr>justCache := jc\<rparr>))
      | _ \<Rightarrow>
          (case justCacheNF cs centsTarget of
             Some hit \<Rightarrow> (hit, cs)
           | None \<Rightarrow>
               (let res = \<lparr>j_name = [], j_frac = (1, 1), j_cents = 0\<rparr>
                in (res, cs\<lparr>justCacheNF := (justCacheNF cs)(centsTarget \<mapsto> res)\<rparr>))))"

definition nearestPythagorean_number :: "caches \<Rightarrow> number \<Rightarrow> pythRes \<times> caches" where
  "nearestPythagorean_number cs centsTarget =
     (case centsTarget of
        Finite c \<Rightarrow>
          (let (p, pyc) = nearestPythagorean (pythCache cs) c in (p, cs\<lparr>pythCache := pyc\<rparr>))
      | _ \<Rightarrow>
          (case pythCacheNF cs centsTarget of
             Some hit \<Rightarrow> (hit, cs)
           | None \<Rightarrow>
               (let best = \<lparr>pb_b = 0, pb_a = 0, pb_cents = 0, pb_ratio = 1, pb_err = None\<rparr>;
                    res = \<lparr>p_cents = pb_cents best, p_ratio = pb_ratio best,
                           p_fraction = pyth_fraction best\<rparr>
                in (res, cs\<lparr>pythCacheNF := (pythCacheNF cs)(centsTarget \<mapsto> res)\<rparr>))))"

definition nearestWerckmeister_number ::
  "caches \<Rightarrow> number \<Rightarrow> real list \<Rightarrow> w3Res \<times> caches" where
  "nearestWerckmeister_number cs centsTarget positions =
     (case centsTarget of
        Finite c \<Rightarrow>
          (let (w, wc) = nearestWerckmeister (w3Cache cs) c positions
           in (w, cs\<lparr>w3Cache := wc\<rparr>))
      | _ \<Rightarrow>
          (case w3CacheNF cs centsTarget of
             Some hit \<Rightarrow> (hit, cs)
           | None \<Rightarrow>
               (let res =
                      (case positions of
                         [] \<Rightarrow> W3Undefined
                       | [p0] \<Rightarrow> W3Res p0 (fromCents p0)
                       | p0 # p1 # ps \<Rightarrow>
                           if isNaN centsTarget then W3Res p0 (fromCents p0)
                           else W3Res p1 (fromCents p1))
                in (res, cs\<lparr>w3CacheNF := (w3CacheNF cs)(centsTarget \<mapsto> res)\<rparr>))))"

definition project ::
  "system \<Rightarrow> real list \<Rightarrow> caches \<Rightarrow> number \<Rightarrow> error + projection \<times> caches" where
  "project s positions cs cents =
     (case s of
        Equal \<Rightarrow>
          (let eq = equalTempNearest_number cents
           in Inr (\<lparr>pj_ratio = eqn_ratio eq, pj_cents = eqn_cents eq,
                     pj_name =
                       showInt (toInt32_number (js_div (eqn_cents eq) (Finite 100))) @ '' st'',
                     pj_frac = ''2^( '' @ String_number (eqn_cents eq) @ ''/1200 )'',
                     pj_fracPair = None\<rparr>, cs))
      | Just \<Rightarrow>
          (let (j, cs') = nearestJust_number cs cents
           in Inr (\<lparr>pj_ratio =
                       js_div (Finite (of_int (fst (j_frac j)))) (Finite (of_int (snd (j_frac j)))),
                     pj_cents = Finite (j_cents j),
                     pj_name = j_name j,
                     pj_frac = showInt (fst (j_frac j)) @ ''/'' @ showInt (snd (j_frac j)),
                     pj_fracPair = Some (j_frac j)\<rparr>, cs'))
      | Pyth \<Rightarrow>
          (let (p, cs') = nearestPythagorean_number cs cents;
               mf = split_on CHR ''/'' (p_fraction p)
           in Inr (\<lparr>pj_ratio = Finite (p_ratio p), pj_cents = Finite (p_cents p),
                     pj_name = ''3-limit'',
                     pj_frac = p_fraction p,
                     pj_fracPair =
                       (if length mf = 2 then
                          (case (parseInt10 (mf ! 0), parseInt10 (mf ! 1)) of
                             (Some n, Some d) \<Rightarrow> Some (n, d)
                           | _ \<Rightarrow> None)
                        else None)\<rparr>, cs'))
      | W3 \<Rightarrow>
          (let (w, cs') = nearestWerckmeister_number cs cents positions
           in case w of
                W3Undefined \<Rightarrow> Inl TypeError
              | W3Res c r \<Rightarrow>
                  Inr (\<lparr>pj_ratio = Finite r, pj_cents = Finite c,
                        pj_name = ''Werckmeister III'',
                        pj_frac = ''2^( '' @ toFixed c 1 @ ''/1200 )'',
                        pj_fracPair = None\<rparr>, cs')))"

definition distance ::
  "projection \<Rightarrow> number option \<Rightarrow> (int \<times> int) option \<Rightarrow> string option \<times> number option" where
  "distance pj refRatio refFrac =
     (case refRatio of
        None \<Rightarrow> (None, None)
      | Some rr \<Rightarrow>
          (case (pj_fracPair pj, refFrac) of
             (Some (n, d), Some (rn0, rd0)) \<Rightarrow>
               (let num = n * rd0; den = d * rn0;
                    (rn, rd) = reduceFraction num den;
                    rDist = js_div (Finite (of_int rn)) (Finite (of_int rd));
                    k = Math_floor (log2_number rDist);
                    rDist' = js_div rDist (Math_pow_2 k)
                in (Some (showInt rn @ ''/'' @ showInt rd), Some (toCents_number rDist')))
           | _ \<Rightarrow>
               (let rDist = js_div (pj_ratio pj) rr;
                    k = Math_floor (log2_number rDist);
                    rDist' = js_div rDist (Math_pow_2 k);
                    dc = toCents_number rDist'
                in (Some (''2^( '' @ Number_toFixed dc 1 @ ''/1200 )''), Some dc))))"

record cmpState =
  out :: "row list"
  firstSysRatio :: "number option"
  firstFrac :: "(int \<times> int) option"
  prevSysRatio :: "number option"
  prevFrac :: "(int \<times> int) option"
  st_caches :: caches

definition rows_body :: "props \<Rightarrow> cmpState \<Rightarrow> string \<Rightarrow> parsed \<Rightarrow> number \<Rightarrow> error + cmpState" where
  "rows_body P st t res f =
     (let ratioAbs = js_div f (c_fFund P);
          oct = Math_floor (log2_number ratioAbs);
          ratioRed' = js_div ratioAbs (Math_pow_2 oct);
          centsEI' = toCents_number ratioRed'
      in case project (c_sys P) (c_w3Positions P) (st_caches st) centsEI' of
           Inl e \<Rightarrow> Inl e
         | Inr (pj, cs) \<Rightarrow>
             (let sysHzBase = js_mul (c_fFund P) (pj_ratio pj);
                  sysHz' = (if c_realOct P then js_mul sysHzBase (Math_pow_2 oct) else sysHzBase);
                  dev' = signedDelta_number (pj_cents pj) centsEI';
                  (refRatio, refFrac) =
                    (if c_distMode P = Previous then (prevSysRatio st, prevFrac st)
                     else (firstSysRatio st, firstFrac st));
                  (distFrac', distCents') = distance pj refRatio refFrac;
                  r = \<lparr>target = (if label res \<noteq> [] then label res else t),
                       hzTarget = f, centsEI = centsEI', ratioRed = ratioRed',
                       sysName = pj_name pj, sysFrac = pj_frac pj, sysCents = pj_cents pj,
                       sysHz = sysHz', dev = dev', distFrac = distFrac', distCents = distCents'\<rparr>
              in Inr \<lparr>out = out st @ [r],
                      firstSysRatio =
                        (if firstSysRatio st = None then Some (pj_ratio pj) else firstSysRatio st),
                      firstFrac =
                        (if firstSysRatio st = None then pj_fracPair pj else firstFrac st),
                      prevSysRatio = Some (pj_ratio pj),
                      prevFrac = pj_fracPair pj,
                      st_caches = cs\<rparr>))"

fun rows_loop :: "props \<Rightarrow> string list \<Rightarrow> cmpState \<Rightarrow> error + cmpState" where
  "rows_loop P [] st = Inr st"
| "rows_loop P (t # ts) st =
     (let res = parseNoteOrHz t (c_a4 P)
      in case freq res of
           None \<Rightarrow> rows_loop P ts st
         | Some f \<Rightarrow>
             if js_falsy f then rows_loop P ts st
             else (case rows_body P st t res f of
                     Inl e \<Rightarrow> Inl e
                   | Inr st' \<Rightarrow> rows_loop P ts st'))"

definition Comparador_rows :: "props \<Rightarrow> caches \<Rightarrow> string list \<Rightarrow> error + row list \<times> caches" where
  "Comparador_rows P cs list =
     (case rows_loop P list
             \<lparr>out = [], firstSysRatio = None, firstFrac = None,
              prevSysRatio = None, prevFrac = None, st_caches = cs\<rparr> of
        Inl e \<Rightarrow> Inl e
      | Inr st \<Rightarrow> Inr (out st, st_caches st))"

section \<open>Notions used by the specification\<close>

text \<open>
  Rounding to the nearest integer with ties away from zero, as the specification words the
  rounding rule of the equal-temperament projector.
\<close>

definition round_half_away_from_zero :: "real \<Rightarrow> int" where
  "round_half_away_from_zero x = (if 0 \<le> x then \<lfloor>x + 1 / 2\<rfloor> else \<lceil>x - 1 / 2\<rceil>)"

text \<open>
  The folded absolute difference of the Werckmeister matcher, as the specification words
  it: the absolute difference of target and position, replaced by 1200 minus itself when
  it exceeds 600.
\<close>

definition folded_difference :: "real \<Rightarrow> real \<Rightarrow> real" where
  "folded_difference centsTarget position =
     (let d = \<bar>centsTarget - position\<bar> in if d > 600 then 1200 - d else d)"

text \<open>
  A run of calls to \<open>nearestWerckmeister\<close>, each with its own target and position list,
  threading the module-level cache from one call to the next.
\<close>

fun w3_calls :: "(int \<rightharpoonup> w3Res) \<Rightarrow> (real \<times> real list) list \<Rightarrow> (int \<rightharpoonup> w3Res)" where
  "w3_calls cache [] = cache"
| "w3_calls cache ((t, positions) # calls) =
     w3_calls (snd (nearestWerckmeister cache t positions)) calls"

text \<open>
  The error that the loop of \<open>nearestJust\<close> computes for a table entry, the candidate
  record it stores for it, and the result it returns for it.
\<close>

definition just_err :: "real \<Rightarrow> justEntry \<Rightarrow> real" where
  "just_err t j = \<bar>signedDelta t (just_cents j)\<bar>"

definition just_best :: "real \<Rightarrow> justEntry \<Rightarrow> justBest" where
  "just_best t j =
     \<lparr>jb_name = je_name j, jb_frac = je_frac j, jb_cents = just_cents j, jb_err = just_err t j\<rparr>"

definition just_result :: "justEntry \<Rightarrow> justRes" where
  "just_result j = \<lparr>j_name = je_name j, j_frac = je_frac j, j_cents = just_cents j\<rparr>"

text \<open>
  What the loop of \<open>nearestPythagorean\<close> computes for an exponent \<open>b\<close>: the octave
  exponent \<open>a\<close>, the reduced ratio, its cents, the error against the target and the
  candidate record.
\<close>

definition pyth_a :: "int \<Rightarrow> int" where
  "pyth_a b = \<lfloor>log2 (Math_pow 3 (of_int b))\<rfloor>"

definition pyth_ratio :: "int \<Rightarrow> real" where
  "pyth_ratio b = Math_pow 3 (of_int b) / Math_pow 2 (of_int (pyth_a b))"

definition pyth_cents :: "int \<Rightarrow> real" where
  "pyth_cents b = js_rem (js_rem (toCents (pyth_ratio b)) 1200 + 1200) 1200"

definition pyth_err :: "real \<Rightarrow> int \<Rightarrow> real" where
  "pyth_err t b = \<bar>signedDelta t (pyth_cents b)\<bar>"

definition pyth_best :: "real \<Rightarrow> int \<Rightarrow> pythBest" where
  "pyth_best t b =
     \<lparr>pb_b = b, pb_a = pyth_a b, pb_cents = pyth_cents b, pb_ratio = pyth_ratio b,
      pb_err = Some (pyth_err t b)\<rparr>"

definition pyth_result :: "real \<Rightarrow> int \<Rightarrow> pythRes" where
  "pyth_result t b =
     \<lparr>p_cents = pyth_cents b, p_ratio = pyth_ratio b, p_fraction = pyth_fraction (pyth_best t b)\<rparr>"







text \<open>
  The Werckmeister III matcher raises nothing when the list of positions is not empty and
  no result stored in its cache is undefined.
\<close>

definition w3_ready :: "props \<Rightarrow> caches \<Rightarrow> bool" where
  "w3_ready P cs =
     (c_sys P = W3 \<longrightarrow>
        c_w3Positions P \<noteq> [] \<and>
        (\<forall>k. w3Cache cs k \<noteq> Some W3Undefined) \<and>
        (\<forall>k. w3CacheNF cs k \<noteq> Some W3Undefined))"

text \<open>
  The scenario of the comparator check: fundamental C4 with A4 at 440 Hz, the system Just,
  distances to the previous target, and no cached results. \<open>rows_of\<close> reads the rows off
  the outcome of the comparator.
\<close>

definition scenario_props :: "bool \<Rightarrow> props" where
  "scenario_props ro =
     \<lparr>c_a4 = 440, c_fFund = Comparador_fFund ''C4'' 440, c_sys = Just,
      c_w3Positions = werckmeisterIIIPositions, c_realOct = ro, c_distMode = Previous\<rparr>"

definition empty_caches :: caches where
  "empty_caches =
     \<lparr>justCache = Map.empty, pythCache = Map.empty, w3Cache = Map.empty,
      justCacheNF = Map.empty, pythCacheNF = Map.empty, w3CacheNF = Map.empty\<rparr>"

definition rows_of :: "error + row list \<times> caches \<Rightarrow> row list" where
  "rows_of outcome = (case outcome of Inl e \<Rightarrow> [] | Inr (rs, cs) \<Rightarrow> rs)"


section \<open>Properties of the circular difference\<close>

lemma js_rem_nonneg:
  assumes "0 \<le> a" "0 < n"
  shows "0 \<le> js_rem a n \<and> js_rem a n < n"
proof -
  have q: "0 \<le> a / n" using assms by simp
  have 1: "of_int \<lfloor>a / n\<rfloor> \<le> a / n" by (rule of_int_floor_le)
  have 2: "a / n < of_int \<lfloor>a / n\<rfloor> + 1" by linarith
  have "n * of_int \<lfloor>a / n\<rfloor> \<le> n * (a / n)"
    using 1 assms by (intro mult_left_mono) auto
  then have "n * of_int \<lfloor>a / n\<rfloor> \<le> a" using assms by simp
  moreover have "n * (a / n) < n * (of_int \<lfloor>a / n\<rfloor> + 1)"
    using 2 assms by (intro mult_strict_left_mono) auto
  then have "a < n * of_int \<lfloor>a / n\<rfloor> + n"
    using assms by (simp add: algebra_simps)
  ultimately show ?thesis using q by (simp add: js_rem_def js_trunc_def)
qed

lemma js_rem_neg:
  assumes "a < 0" "0 < n"
  shows "- n < js_rem a n \<and> js_rem a n \<le> 0"
proof -
  have q: "\<not> 0 \<le> a / n" using assms by (simp add: field_simps)
  have 1: "a / n \<le> of_int \<lceil>a / n\<rceil>" by (rule le_of_int_ceiling)
  have 2: "of_int \<lceil>a / n\<rceil> - 1 < a / n" by linarith
  have "n * (a / n) \<le> n * of_int \<lceil>a / n\<rceil>"
    using 1 assms by (intro mult_left_mono) auto
  then have "a \<le> n * of_int \<lceil>a / n\<rceil>" using assms by simp
  moreover have "n * (of_int \<lceil>a / n\<rceil> - 1) < n * (a / n)"
    using 2 assms by (intro mult_strict_left_mono) auto
  then have "n * of_int \<lceil>a / n\<rceil> - n < a"
    using assms by (simp add: algebra_simps)
  ultimately show ?thesis using q by (simp add: js_rem_def js_trunc_def)
qed

lemma js_rem_bounds:
  assumes "0 < n"
  shows "- n < js_rem a n \<and> js_rem a n < n"
proof (cases "0 \<le> a")
  case True
  with js_rem_nonneg [of a n] assms show ?thesis by linarith
next
  case False
  with js_rem_neg [of a n] assms show ?thesis by linarith
qed

lemma js_rem_cong: "\<exists>k::int. js_rem a n = a - n * of_int k"
  unfolding js_rem_def by blast

lemma signedDelta_range: "- 600 \<le> signedDelta r t \<and> signedDelta r t < 600"
proof -
  define m where "m = js_rem (t - r + 600) 1200"
  have "- 1200 < m \<and> m < 1200"
    unfolding m_def using js_rem_bounds [of 1200 "t - r + 600"] by simp
  then have "0 \<le> m + 1200" by simp
  then have "0 \<le> js_rem (m + 1200) 1200 \<and> js_rem (m + 1200) 1200 < 1200"
    using js_rem_nonneg [of "m + 1200" 1200] by simp
  then show ?thesis by (simp add: signedDelta_def Let_def m_def)
qed

lemma signedDelta_cong: "\<exists>k::int. signedDelta r t = t - r + 1200 * of_int k"
proof -
  define m where "m = js_rem (t - r + 600) 1200"
  obtain k1 :: int where k1: "m = t - r + 600 - 1200 * of_int k1"
    unfolding m_def using js_rem_cong by blast
  obtain k2 :: int where k2: "js_rem (m + 1200) 1200 = m + 1200 - 1200 * of_int k2"
    using js_rem_cong by blast
  have "signedDelta r t = t - r + 1200 * of_int (1 - k1 - k2)"
    using k1 k2 by (simp add: signedDelta_def Let_def m_def [symmetric])
  then show ?thesis by blast
qed

lemma signedDelta_unique:
  assumes "- 600 \<le> t - r + 1200 * of_int k" "t - r + 1200 * of_int k < 600"
  shows "signedDelta r t = t - r + 1200 * of_int k"
proof -
  obtain j :: int where j: "signedDelta r t = t - r + 1200 * of_int j"
    using signedDelta_cong by blast
  have rng: "- 600 \<le> signedDelta r t \<and> signedDelta r t < 600"
    by (rule signedDelta_range)
  have "(1200::real) * of_int j < 1200 * of_int k + 1200"
    using assms j rng by linarith
  then have "(of_int j :: real) < of_int (k + 1)" by simp
  then have a: "j < k + 1" using of_int_less_iff by blast
  have "(1200::real) * of_int k < 1200 * of_int j + 1200"
    using assms j rng by linarith
  then have "(of_int k :: real) < of_int (j + 1)" by simp
  then have b: "k < j + 1" using of_int_less_iff by blast
  from a b have "j = k" by simp
  with j show ?thesis by simp
qed

text \<open>
  C1. For every reference \<open>r\<close> and target \<open>t\<close>, \<open>signedDelta r t\<close> differs from
  \<open>t - r\<close> by an integer multiple of 1200, lies in the half-open range from -600
  (included) to 600 (excluded), and equals -600 whenever the raw difference is 600
  plus a multiple of 1200.
\<close>

theorem signedDelta_spec:
  "(\<exists>k::int. signedDelta r t = t - r + 1200 * of_int k) \<and>
   - 600 \<le> signedDelta r t \<and> signedDelta r t < 600 \<and>
   ((\<exists>m::int. t - r = 600 + 1200 * of_int m) \<longrightarrow> signedDelta r t = - 600)"
proof -
  have "signedDelta r t = - 600" if "t - r = 600 + 1200 * of_int m" for m :: int
  proof -
    have "signedDelta r t = t - r + 1200 * of_int (- m - 1)"
      by (rule signedDelta_unique) (simp_all add: that)
    then show ?thesis by (simp add: that)
  qed
  then show ?thesis
    using signedDelta_cong [of r t] signedDelta_range [of r t] by blast
qed

theorem signedDelta_spec_witness:
  "signedDelta 0 600 = - 600 \<and> signedDelta 600 0 = - 600 \<and> signedDelta 1190 10 = 20"
proof -
  have a: "signedDelta 0 600 = - 600"
    using signedDelta_spec [of 0 600] by (simp add: exI [of _ 0])
  have "\<exists>m::int. (0::real) - 600 = 600 + 1200 * of_int m"
    by (rule exI [of _ "- 1"]) simp
  then have b: "signedDelta 600 0 = - 600"
    using signedDelta_spec [of 600 0] by blast
  have c: "signedDelta 1190 10 = 20"
    using signedDelta_unique [of 10 1190 1] by simp
  from a b c show ?thesis by simp
qed

section \<open>Logarithms and cents\<close>

lemma LOG2_pos: "0 < LOG2"
  by (simp add: LOG2_def)

lemma log2_eq_log: "log2 x = log 2 x"
  by (simp add: log2_def LOG2_def log_def)

lemma toCents_eq: "toCents r = 1200 * log2 r"
  by (simp add: toCents_def log2_def)

lemma log2_2: "log2 2 = 1"
  by (simp add: log2_def LOG2_def)

lemma log2_mult: "0 < a \<Longrightarrow> 0 < b \<Longrightarrow> log2 (a * b) = log2 a + log2 b"
  by (simp add: log2_def ln_mult add_divide_distrib)

lemma log2_divide: "0 < a \<Longrightarrow> 0 < b \<Longrightarrow> log2 (a / b) = log2 a - log2 b"
  by (simp add: log2_def ln_div diff_divide_distrib)

lemma log2_pow: "0 < a \<Longrightarrow> log2 (a ^ n) = of_nat n * log2 a"
  by (simp add: log2_def ln_realpow)

lemma log2_pow_less:
  assumes "a ^ m < b ^ n" "0 < a" "0 < b"
  shows "of_nat m * log2 a < of_nat n * log2 b"
proof -
  have "log 2 (a ^ m) < log 2 (b ^ n)"
    using assms by (subst log_less_cancel_iff) auto
  then show ?thesis
    using assms by (simp only: log2_pow log2_eq_log [symmetric])
qed

lemma log2_3_lower: "84 / 53 < log2 3"
  using log2_pow_less [of 2 84 3 53] by (simp add: log2_2)

lemma log2_3_upper: "log2 3 < 65 / 41"
  using log2_pow_less [of 3 41 2 65] by (simp add: log2_2)

lemma log2_5_lower: "65 / 28 < log2 5"
  using log2_pow_less [of 2 65 5 28] by (simp add: log2_2)

lemma log2_5_upper: "log2 5 < 137 / 59"
  using log2_pow_less [of 5 59 2 137] by (simp add: log2_2)

lemma fromCents_toCents: "0 < r \<Longrightarrow> fromCents (toCents r) = r"
  by (simp add: fromCents_def toCents_def LOG2_def powr_def)

lemma toCents_fromCents: "toCents (fromCents c) = c"
  by (simp add: fromCents_def toCents_def LOG2_def powr_def)

lemma pureFifth_eq: "toCents (3 / 2) = 1200 * log2 3 - 1200"
  by (simp add: toCents_eq log2_divide log2_2)

lemma pythComma_eq: "1200 * ln (531441 / 524288) / LOG2 = 14400 * log2 3 - 22800"
proof -
  have "log2 ((3::real) ^ 12 / 2 ^ 19) = 12 * log2 3 - 19"
    by (subst log2_divide) (simp_all only: log2_pow log2_2, simp_all)
  then have "log2 (531441 / 524288) = 12 * log2 3 - 19" by simp
  then show ?thesis by (simp add: log2_def)
qed

lemma w3_sizes_eq:
  "w3_sizes = (let t = 4500 - 2400 * log2 3; p = 1200 * log2 3 - 1200
               in [t, t, t, t, p, p, p, p, p, p, p, p])"
  by (simp add: w3_sizes_def Let_def pureFifth_eq pythComma_eq diff_divide_distrib)


lemma js_rem_unique:
  assumes "0 < n" "0 \<le> a" "0 \<le> a - n * of_int k" "a - n * of_int k < n"
  shows "js_rem a n = a - n * of_int k"
proof -
  have q: "0 \<le> a / n" using assms by simp
  have "of_int k \<le> a / n" using assms by (simp add: field_simps)
  moreover have "a / n < of_int k + 1" using assms by (simp add: field_simps)
  ultimately have "\<lfloor>a / n\<rfloor> = k" by linarith
  then show ?thesis using q by (simp add: js_rem_def js_trunc_def)
qed

lemma w3_accumulate_eq:
  "w3_accumulate (take 11 w3_sizes) 0 [0] =
     [0, 4500 - 2400 * log2 3, 7800 - 4800 * log2 3, 12300 - 7200 * log2 3,
      15600 - 9600 * log2 3, 14400 - 8400 * log2 3, 12000 - 7200 * log2 3,
      9600 - 6000 * log2 3, 8400 - 4800 * log2 3, 6000 - 3600 * log2 3,
      4800 - 2400 * log2 3, 2400 - 1200 * log2 3]"
proof -
  note b = log2_3_lower log2_3_upper
  have r1: "js_rem (4500 - 2400 * log2 3) 1200 = 4500 - 2400 * log2 3"
    using b js_rem_unique [of 1200 "4500 - 2400 * log2 3" 0] by simp
  have r2: "js_rem (9000 - 4800 * log2 3) 1200 = 7800 - 4800 * log2 3"
    using b js_rem_unique [of 1200 "9000 - 4800 * log2 3" 1] by simp
  have r3: "js_rem (13500 - 7200 * log2 3) 1200 = 12300 - 7200 * log2 3"
    using b js_rem_unique [of 1200 "13500 - 7200 * log2 3" 1] by simp
  have r4: "js_rem (18000 - 9600 * log2 3) 1200 = 15600 - 9600 * log2 3"
    using b js_rem_unique [of 1200 "18000 - 9600 * log2 3" 2] by simp
  have r5: "js_rem (16800 - 8400 * log2 3) 1200 = 14400 - 8400 * log2 3"
    using b js_rem_unique [of 1200 "16800 - 8400 * log2 3" 2] by simp
  have r6: "js_rem (15600 - 7200 * log2 3) 1200 = 12000 - 7200 * log2 3"
    using b js_rem_unique [of 1200 "15600 - 7200 * log2 3" 3] by simp
  have r7: "js_rem (14400 - 6000 * log2 3) 1200 = 9600 - 6000 * log2 3"
    using b js_rem_unique [of 1200 "14400 - 6000 * log2 3" 4] by simp
  have r8: "js_rem (13200 - 4800 * log2 3) 1200 = 8400 - 4800 * log2 3"
    using b js_rem_unique [of 1200 "13200 - 4800 * log2 3" 4] by simp
  have r9: "js_rem (12000 - 3600 * log2 3) 1200 = 6000 - 3600 * log2 3"
    using b js_rem_unique [of 1200 "12000 - 3600 * log2 3" 5] by simp
  have r10: "js_rem (10800 - 2400 * log2 3) 1200 = 4800 - 2400 * log2 3"
    using b js_rem_unique [of 1200 "10800 - 2400 * log2 3" 5] by simp
  have r11: "js_rem (9600 - 1200 * log2 3) 1200 = 2400 - 1200 * log2 3"
    using b js_rem_unique [of 1200 "9600 - 1200 * log2 3" 6] by simp
  show ?thesis
    using b
    by (simp add: w3_sizes_eq Let_def r1 r2 r3 r4 r5 r6 r7 r8 r9 r10 r11)
qed


lemma js_rem_shift: "0 \<le> p \<Longrightarrow> p < 1200 \<Longrightarrow> js_rem (p + 1200) 1200 = p"
  using js_rem_unique [of 1200 "p + 1200" 1] by simp

lemma werckmeisterIIIPositions_closed:
  "werckmeisterIIIPositions =
     [0, 9600 - 6000 * log2 3, 7800 - 4800 * log2 3, 6000 - 3600 * log2 3,
      15600 - 9600 * log2 3, 2400 - 1200 * log2 3, 12000 - 7200 * log2 3,
      4500 - 2400 * log2 3, 8400 - 4800 * log2 3, 12300 - 7200 * log2 3,
      4800 - 2400 * log2 3, 14400 - 8400 * log2 3]"
  (is "_ = ?closed")
proof -
  note b = log2_3_lower log2_3_upper
  let ?acc = "[0, 4500 - 2400 * log2 3, 7800 - 4800 * log2 3, 12300 - 7200 * log2 3,
      15600 - 9600 * log2 3, 14400 - 8400 * log2 3, 12000 - 7200 * log2 3,
      9600 - 6000 * log2 3, 8400 - 4800 * log2 3, 6000 - 3600 * log2 3,
      4800 - 2400 * log2 3, 2400 - 1200 * log2 3]"
  have "\<forall>p \<in> set ?acc. 0 \<le> p \<and> p < 1200"
    using b by simp
  then have u: "map (\<lambda>x. js_rem (x + 1200) 1200) ?acc = ?acc"
    by (intro map_idI) (simp only: js_rem_shift)
  have m: "mset ?closed = mset ?acc"
    by simp
  have s: "sorted ?closed"
    using b by simp
  have "sort ?acc = ?closed"
    using m s by (rule properties_for_sort)
  then show ?thesis
    by (simp only: werckmeisterIIIPositions_def w3_accumulate_eq Let_def u)
qed

section \<open>The Werckmeister III positions\<close>

lemma floor_mod_unique:
  assumes "0 \<le> (a::real) - 1200 * of_int k" "a - 1200 * of_int k < 1200"
  shows "a - 1200 * of_int \<lfloor>a / 1200\<rfloor> = a - 1200 * of_int k"
proof -
  have "of_int k \<le> a / 1200" using assms by (simp add: field_simps)
  moreover have "a / 1200 < of_int k + 1" using assms by (simp add: field_simps)
  ultimately have "\<lfloor>a / 1200\<rfloor> = k" by linarith
  then show ?thesis by simp
qed

lemma w3_partial_sums:
  "map (\<lambda>i. let acc = of_nat (min i 4) * (toCents (3 / 2) - toCents (531441 / 524288) / 4)
                         + of_nat (i - 4) * toCents (3 / 2)
               in acc - 1200 * of_int \<lfloor>acc / 1200\<rfloor>) [0..<12] =
     [0, 4500 - 2400 * log2 3, 7800 - 4800 * log2 3, 12300 - 7200 * log2 3,
      15600 - 9600 * log2 3, 14400 - 8400 * log2 3, 12000 - 7200 * log2 3,
      9600 - 6000 * log2 3, 8400 - 4800 * log2 3, 6000 - 3600 * log2 3,
      4800 - 2400 * log2 3, 2400 - 1200 * log2 3]"
proof -
  note b = log2_3_lower log2_3_upper
  have c: "toCents (531441 / 524288) = 14400 * log2 3 - 22800"
    using pythComma_eq by (simp add: toCents_def)
  have t: "toCents (3 / 2) - toCents (531441 / 524288) / 4 = 4500 - 2400 * log2 3"
    by (simp add: c pureFifth_eq diff_divide_distrib)
  have r1: "(4500 - 2400 * log2 3) - 1200 * of_int \<lfloor>(4500 - 2400 * log2 3) / 1200\<rfloor> = 4500 - 2400 * log2 3"
    using b floor_mod_unique [of "4500 - 2400 * log2 3" 0] by simp
  have r2: "(9000 - 4800 * log2 3) - 1200 * of_int \<lfloor>(9000 - 4800 * log2 3) / 1200\<rfloor> = 7800 - 4800 * log2 3"
    using b floor_mod_unique [of "9000 - 4800 * log2 3" 1] by simp
  have r3: "(13500 - 7200 * log2 3) - 1200 * of_int \<lfloor>(13500 - 7200 * log2 3) / 1200\<rfloor> = 12300 - 7200 * log2 3"
    using b floor_mod_unique [of "13500 - 7200 * log2 3" 1] by simp
  have r4: "(18000 - 9600 * log2 3) - 1200 * of_int \<lfloor>(18000 - 9600 * log2 3) / 1200\<rfloor> = 15600 - 9600 * log2 3"
    using b floor_mod_unique [of "18000 - 9600 * log2 3" 2] by simp
  have r5: "(16800 - 8400 * log2 3) - 1200 * of_int \<lfloor>(16800 - 8400 * log2 3) / 1200\<rfloor> = 14400 - 8400 * log2 3"
    using b floor_mod_unique [of "16800 - 8400 * log2 3" 2] by simp
  have r6: "(15600 - 7200 * log2 3) - 1200 * of_int \<lfloor>(15600 - 7200 * log2 3) / 1200\<rfloor> = 12000 - 7200 * log2 3"
    using b floor_mod_unique [of "15600 - 7200 * log2 3" 3] by simp
  have r7: "(14400 - 6000 * log2 3) - 1200 * of_int \<lfloor>(14400 - 6000 * log2 3) / 1200\<rfloor> = 9600 - 6000 * log2 3"
    using b floor_mod_unique [of "14400 - 6000 * log2 3" 4] by simp
  have r8: "(13200 - 4800 * log2 3) - 1200 * of_int \<lfloor>(13200 - 4800 * log2 3) / 1200\<rfloor> = 8400 - 4800 * log2 3"
    using b floor_mod_unique [of "13200 - 4800 * log2 3" 4] by simp
  have r9: "(12000 - 3600 * log2 3) - 1200 * of_int \<lfloor>(12000 - 3600 * log2 3) / 1200\<rfloor> = 6000 - 3600 * log2 3"
    using b floor_mod_unique [of "12000 - 3600 * log2 3" 5] by simp
  have r10: "(10800 - 2400 * log2 3) - 1200 * of_int \<lfloor>(10800 - 2400 * log2 3) / 1200\<rfloor> = 4800 - 2400 * log2 3"
    using b floor_mod_unique [of "10800 - 2400 * log2 3" 5] by simp
  have r11: "(9600 - 1200 * log2 3) - 1200 * of_int \<lfloor>(9600 - 1200 * log2 3) / 1200\<rfloor> = 2400 - 1200 * log2 3"
    using b floor_mod_unique [of "9600 - 1200 * log2 3" 6] by simp
  have u: "[0..<12] = [0, 1, 2, 3, 4, 5, 6, 7, 8, 9, 10, 11]"
    by (simp add: upt_conv_Cons)
  show ?thesis
    unfolding u t
    using r1 r2 r3 r4 r5 r6 r7 r8 r9 r10 r11
    by (simp add: Let_def pureFifth_eq algebra_simps)
qed

text \<open>
  C5. The list returned by \<open>werckmeisterIIIPositions\<close> has exactly 12 values, is sorted
  in ascending order without repetition, starts at 0, and every value lies in the range from
  0 (included) to 1200 (excluded). Its values are the origin together with the partial sums
  of eleven fifths, the first four tempered by a quarter of the Pythagorean comma and the
  rest pure, each reduced modulo 1200.
\<close>

theorem werckmeisterIIIPositions_spec:
  "length werckmeisterIIIPositions = 12 \<and>
   sorted werckmeisterIIIPositions \<and>
   distinct werckmeisterIIIPositions \<and>
   hd werckmeisterIIIPositions = 0 \<and>
   (\<forall>p \<in> set werckmeisterIIIPositions. 0 \<le> p \<and> p < 1200) \<and>
   mset werckmeisterIIIPositions =
     mset (map (\<lambda>i. let acc = of_nat (min i 4) * (toCents (3 / 2) - toCents (531441 / 524288) / 4)
                                + of_nat (i - 4) * toCents (3 / 2)
                      in acc - 1200 * of_int \<lfloor>acc / 1200\<rfloor>) [0..<12])"
proof -
  note b = log2_3_lower log2_3_upper
  have 1: "length werckmeisterIIIPositions = 12"
    by (simp add: werckmeisterIIIPositions_closed)
  have 2: "sorted werckmeisterIIIPositions"
    using b by (simp add: werckmeisterIIIPositions_closed)
  have 3: "distinct werckmeisterIIIPositions"
    using b by (simp add: werckmeisterIIIPositions_closed)
  have 4: "hd werckmeisterIIIPositions = 0"
    by (simp add: werckmeisterIIIPositions_closed)
  have 5: "\<forall>p \<in> set werckmeisterIIIPositions. 0 \<le> p \<and> p < 1200"
    using b by (simp add: werckmeisterIIIPositions_closed)
  have 6: "mset werckmeisterIIIPositions =
     mset (map (\<lambda>i. let acc = of_nat (min i 4) * (toCents (3 / 2) - toCents (531441 / 524288) / 4)
                                + of_nat (i - 4) * toCents (3 / 2)
                      in acc - 1200 * of_int \<lfloor>acc / 1200\<rfloor>) [0..<12])"
    unfolding w3_partial_sums by (simp add: werckmeisterIIIPositions_closed)
  from 1 2 3 4 5 6 show ?thesis by blast
qed

theorem werckmeisterIIIPositions_spec_witness:
  "werckmeisterIIIPositions \<noteq> [] \<and> 0 \<le> last werckmeisterIIIPositions \<and>
   last werckmeisterIIIPositions < 1200"
proof -
  have n: "werckmeisterIIIPositions \<noteq> []"
    using werckmeisterIIIPositions_spec by auto
  then have "last werckmeisterIIIPositions \<in> set werckmeisterIIIPositions"
    by simp
  then show ?thesis using n werckmeisterIIIPositions_spec by blast
qed

section \<open>The equal-temperament projector\<close>

lemma Math_round_half_away:
  assumes "0 \<le> x \<or> x - 1 / 2 \<notin> \<int>"
  shows "Math_round x = round_half_away_from_zero x"
proof (cases "0 \<le> x")
  case True
  then show ?thesis by (simp add: Math_round_def round_half_away_from_zero_def)
next
  case False
  with assms have n: "x - 1 / 2 \<notin> \<int>" by simp
  have "x - 1 / 2 \<noteq> of_int \<lfloor>x - 1 / 2\<rfloor>"
    using n by (metis Ints_of_int)
  then have "\<lceil>x - 1 / 2\<rceil> = \<lfloor>x - 1 / 2\<rfloor> + 1"
    by (simp add: ceiling_altdef)
  also have "\<dots> = \<lfloor>x + 1 / 2\<rfloor>" by linarith
  finally have "\<lceil>x - 1 / 2\<rceil> = \<lfloor>x + 1 / 2\<rfloor>" .
  then show ?thesis
    using False unfolding Math_round_def round_half_away_from_zero_def by simp
qed

text \<open>
  C4, as stated, fails for negative half-way targets: \<open>Math.round\<close> rounds ties
  towards plus infinity, so the target -250 is projected to -200 cents and not to the -300
  cents that rounding half away from zero gives.
\<close>

theorem equalTempNearest_half_away_counterexample:
  "eq_cents (equalTempNearest (- 250)) = - 200 \<and>
   100 * real_of_int (round_half_away_from_zero (- 250 / 100)) = - 300"
proof -
  have "\<lfloor>- (2::real)\<rfloor> = - 2" by simp
  have a: "Math_round (- 250 / 100) = - 2"
    unfolding Math_round_def by simp
  have "\<lceil>- (3::real)\<rceil> = - 3" by simp
  then have b: "round_half_away_from_zero (- 250 / 100) = - 3"
    unfolding round_half_away_from_zero_def by simp
  show ?thesis
    using a b by (simp add: equalTempNearest_def Let_def)
qed

text \<open>
  C4, amended. For every target, \<open>equalTempNearest\<close> returns the step count
  \<open>\<lfloor>target / 100 + 1 / 2\<rfloor>\<close> (the nearest integer, ties towards plus infinity), the cents
  value 100 times that count, which lies within 50 cents of the target, and the ratio
  \<open>fromCents\<close> of that cents value. The step count is the one of rounding half away from
  zero for every target that is non-negative or not exactly half-way between two multiples
  of 100. The target 386.3 gives 400 cents.
\<close>

theorem equalTempNearest_spec:
  "eq_steps (equalTempNearest t) = \<lfloor>t / 100 + 1 / 2\<rfloor> \<and>
   eq_cents (equalTempNearest t) = 100 * of_int (eq_steps (equalTempNearest t)) \<and>
   eq_ratio (equalTempNearest t) = fromCents (eq_cents (equalTempNearest t)) \<and>
   t - 50 < eq_cents (equalTempNearest t) \<and> eq_cents (equalTempNearest t) \<le> t + 50 \<and>
   (0 \<le> t \<or> t / 100 - 1 / 2 \<notin> \<int> \<longrightarrow>
      eq_steps (equalTempNearest t) = round_half_away_from_zero (t / 100)) \<and>
   eq_cents (equalTempNearest 386.3) = 400"
proof -
  have 1: "eq_steps (equalTempNearest t) = \<lfloor>t / 100 + 1 / 2\<rfloor>"
    by (simp add: equalTempNearest_def Let_def Math_round_def)
  have 2: "eq_cents (equalTempNearest t) = 100 * of_int (eq_steps (equalTempNearest t))"
    by (simp add: equalTempNearest_def Let_def)
  have 3: "eq_ratio (equalTempNearest t) = fromCents (eq_cents (equalTempNearest t))"
    by (simp add: equalTempNearest_def Let_def)
  have "of_int \<lfloor>t / 100 + 1 / 2\<rfloor> \<le> t / 100 + 1 / 2"
    by (rule of_int_floor_le)
  moreover have "t / 100 + 1 / 2 < of_int \<lfloor>t / 100 + 1 / 2\<rfloor> + 1"
    by linarith
  ultimately have 4: "t - 50 < eq_cents (equalTempNearest t) \<and> eq_cents (equalTempNearest t) \<le> t + 50"
    unfolding 2 1 by linarith
  have 5: "eq_steps (equalTempNearest t) = round_half_away_from_zero (t / 100)"
    if "0 \<le> t \<or> t / 100 - 1 / 2 \<notin> \<int>"
  proof -
    have "Math_round (t / 100) = round_half_away_from_zero (t / 100)"
      using that by (intro Math_round_half_away) auto
    then show ?thesis by (simp add: equalTempNearest_def Let_def)
  qed
  have "\<lfloor>(3863::real) / 1000 + 1 / 2\<rfloor> = 4" by linarith
  then have 6: "eq_cents (equalTempNearest 386.3) = 400"
    by (simp add: equalTempNearest_def Let_def Math_round_def)
  from 1 2 3 4 5 6 show ?thesis by blast
qed

theorem equalTempNearest_spec_witness:
  "eq_steps (equalTempNearest 50) = round_half_away_from_zero (50 / 100) \<and>
   eq_cents (equalTempNearest 50) = 100 \<and>
   eq_cents (equalTempNearest (- 50)) = 0"
proof -
  have a: "eq_steps (equalTempNearest 50) = round_half_away_from_zero (50 / 100)"
    using equalTempNearest_spec [of 50] by simp
  have "round_half_away_from_zero (50 / 100) = 1"
    by (simp add: round_half_away_from_zero_def)
  with a have b: "eq_cents (equalTempNearest 50) = 100"
    using equalTempNearest_spec [of 50] by simp
  have "\<lfloor>(0::real)\<rfloor> = 0" by simp
  have c: "eq_cents (equalTempNearest (- 50)) = 0"
    using equalTempNearest_spec [of "- 50"] by simp
  from a b c show ?thesis by simp
qed

section \<open>The Werckmeister III matcher and its cache\<close>

lemma nearestWerckmeister_keeps:
  "cache k = Some v \<Longrightarrow> snd (nearestWerckmeister cache t positions) k = Some v"
  by (auto simp: nearestWerckmeister_def Let_def split: option.splits)

lemma w3_calls_keeps:
  "cache k = Some v \<Longrightarrow> w3_calls cache calls k = Some v"
proof (induction calls arbitrary: cache)
  case Nil
  then show ?case by simp
next
  case (Cons c calls)
  obtain t positions where c: "c = (t, positions)" by (cases c)
  have "snd (nearestWerckmeister cache t positions) k = Some v"
    using Cons.prems by (simp add: nearestWerckmeister_keeps)
  then show ?case
    unfolding c w3_calls.simps by (rule Cons.IH)
qed

lemma nearestWerckmeister_stores:
  "snd (nearestWerckmeister cache t positions) (Math_round (t * 1000)) =
     Some (fst (nearestWerckmeister cache t positions))"
  by (auto simp: nearestWerckmeister_def Let_def split: option.splits)

lemma nearestWerckmeister_hit:
  "cache (Math_round (t * 1000)) = Some v \<Longrightarrow> nearestWerckmeister cache t positions = (v, cache)"
  by (simp add: nearestWerckmeister_def Let_def)

lemma nearestWerckmeister_miss:
  "cache (Math_round (t * 1000)) = None \<Longrightarrow>
   nearestWerckmeister cache t positions =
     (w3_search t positions, cache(Math_round (t * 1000) \<mapsto> w3_search t positions))"
  by (simp add: nearestWerckmeister_def Let_def)

text \<open>
  C10. The cache of \<open>nearestWerckmeister\<close> is keyed by the rounded target alone. After a
  call with target \<open>t\<close> and positions \<open>P1\<close>, and however many further calls, a call
  whose target \<open>t'\<close> has the same key (\<open>round (1000 t') = round (1000 t)\<close>) returns
  what the call with \<open>P1\<close> returned, whatever its own position list \<open>P2\<close> is. When
  the key was absent before the first call, that result is the one computed from \<open>P1\<close>.
\<close>

theorem nearestWerckmeister_cache_ignores_positions:
  assumes "Math_round (t' * 1000) = Math_round (t * 1000)"
  shows "fst (nearestWerckmeister (w3_calls (snd (nearestWerckmeister cache t P1)) calls) t' P2) =
           fst (nearestWerckmeister cache t P1) \<and>
         (cache (Math_round (t * 1000)) = None \<longrightarrow>
            fst (nearestWerckmeister cache t P1) = w3_search t P1)"
proof -
  let ?r = "fst (nearestWerckmeister cache t P1)"
  let ?c = "w3_calls (snd (nearestWerckmeister cache t P1)) calls"
  have "?c (Math_round (t * 1000)) = Some ?r"
    by (rule w3_calls_keeps) (rule nearestWerckmeister_stores)
  then have "?c (Math_round (t' * 1000)) = Some ?r"
    using assms by simp
  then have "nearestWerckmeister ?c t' P2 = (?r, ?c)"
    by (rule nearestWerckmeister_hit)
  then show ?thesis
    by (simp add: nearestWerckmeister_miss)
qed

theorem nearestWerckmeister_cache_ignores_positions_witness:
  "fst (nearestWerckmeister
          (w3_calls (snd (nearestWerckmeister Map.empty 0 [0])) [(700, [5])]) (1 / 5000) [600]) =
     W3Res 0 (fromCents 0) \<and>
   w3_search (1 / 5000) [600] = W3Res 600 (fromCents 600)"
proof -
  have "\<lfloor>(7::real) / 10\<rfloor> = 0" by linarith
  then have k: "Math_round (1 / 5000 * 1000) = Math_round (0 * 1000)"
    by (simp add: Math_round_def)
  have s: "w3_search 0 [0] = W3Res 0 (fromCents 0)"
    by (simp add: w3_search_def)
  have "w3_search (1 / 5000) [600] = W3Res 600 (fromCents 600)"
    by (simp add: w3_search_def)
  then show ?thesis
    using nearestWerckmeister_cache_ignores_positions [OF k, of Map.empty "[0]" "[(700, [5])]" "[600]"] s
    by simp
qed

lemma w3_loop_Cons:
  "w3_loop t (p # ps) i best =
     w3_loop t ps (Suc i)
       (if folded_difference t p < wb_err best
        then \<lparr>wb_idx = i, wb_cents = p, wb_err = folded_difference t p\<rparr> else best)"
  by (simp add: Let_def folded_difference_def abs_minus_commute)

lemma w3_bug_eval:
  "w3_search 1190 werckmeisterIIIPositions =
     W3Res (9600 - 6000 * log2 3) (fromCents (9600 - 6000 * log2 3))"
proof -
  note b = log2_3_lower log2_3_upper
  define x where "x = log2 3"
  have bx: "84 / 53 < x" "x < 65 / 41" using b by (simp_all add: x_def)
  have e1: "folded_difference 1190 (9600 - 6000 * x) = 9610 - 6000 * x"
    using bx by (simp add: folded_difference_def Let_def)
  have ek: "\<not> folded_difference 1190 p < 9610 - 6000 * x" if "101 \<le> p" "p \<le> 1087" for p
    using that bx by (simp add: folded_difference_def Let_def)
  have lt: "9610 - 6000 * x < 1190" using bx by simp
  show ?thesis
    unfolding w3_search_def werckmeisterIIIPositions_closed x_def [symmetric]
    using bx by (simp add: w3_loop_Cons e1 ek lt del: w3_loop.simps(2))
qed

text \<open>
  C2, evaluated at a failing input. The first position is compared by its plain absolute
  difference: the loop that folds differences above 600 starts at the second position.
  For the target 1190 and the Werckmeister III positions, the origin 0 has the folded
  difference 10, and yet the matcher returns the second position (about 90.2 cents), whose
  folded difference exceeds 97.
\<close>

theorem nearestWerckmeister_origin_not_folded:
  "fst (nearestWerckmeister Map.empty 1190 werckmeisterIIIPositions) =
     W3Res (9600 - 6000 * log2 3) (fromCents (9600 - 6000 * log2 3)) \<and>
   0 \<in> set werckmeisterIIIPositions \<and>
   folded_difference 1190 0 = 10 \<and>
   97 < folded_difference 1190 (9600 - 6000 * log2 3)"
proof -
  note b = log2_3_lower log2_3_upper
  have 1: "fst (nearestWerckmeister Map.empty 1190 werckmeisterIIIPositions) =
     W3Res (9600 - 6000 * log2 3) (fromCents (9600 - 6000 * log2 3))"
    by (simp add: nearestWerckmeister_miss w3_bug_eval)
  have 2: "0 \<in> set werckmeisterIIIPositions"
    by (simp add: werckmeisterIIIPositions_closed)
  have 3: "folded_difference 1190 0 = 10"
    by (simp add: folded_difference_def)
  have 4: "97 < folded_difference 1190 (9600 - 6000 * log2 3)"
    using b by (simp add: folded_difference_def Let_def)
  from 1 2 3 4 show ?thesis by blast
qed

section \<open>Fine rational bounds for the logarithms\<close>

lemma chain_lower:
  fixes f :: real
  assumes "a * 2 ^ p \<le> f ^ i" "b * 2 ^ q \<le> f ^ j" "c * 2 ^ s \<le> a * b"
    "e = p + q + s" "n = i + j" "0 \<le> a" "0 \<le> b"
  shows "c * 2 ^ e \<le> f ^ n"
proof -
  have "c * 2 ^ e = (c * 2 ^ s) * (2 ^ p * 2 ^ q)"
    using assms(4) by (simp add: power_add)
  also have "\<dots> \<le> (a * b) * (2 ^ p * 2 ^ q)"
    using assms(3) by (intro mult_right_mono) auto
  also have "\<dots> = (a * 2 ^ p) * (b * 2 ^ q)" by simp
  also have "\<dots> \<le> f ^ i * f ^ j"
  proof (rule mult_mono)
    have "0 \<le> a * 2 ^ p" using assms(6) by simp
    then show "0 \<le> f ^ i" using assms(1) by linarith
    show "0 \<le> b * 2 ^ q" using assms(7) by simp
  qed (use assms(1,2) in auto)
  also have "\<dots> = f ^ n"
    using assms(5) by (simp add: power_add)
  finally show ?thesis .
qed

lemma chain_upper:
  fixes f :: real
  assumes "0 \<le> f" "f ^ i \<le> a * 2 ^ p" "f ^ j \<le> b * 2 ^ q" "a * b \<le> c * 2 ^ s"
    "e = p + q + s" "n = i + j" "0 \<le> a"
  shows "f ^ n \<le> c * 2 ^ e"
proof -
  have "f ^ n = f ^ i * f ^ j"
    using assms(6) by (simp add: power_add)
  also have "\<dots> \<le> (a * 2 ^ p) * (b * 2 ^ q)"
    using assms(1,2,3,7) by (intro mult_mono) auto
  also have "\<dots> = (a * b) * (2 ^ p * 2 ^ q)" by simp
  also have "\<dots> \<le> (c * 2 ^ s) * (2 ^ p * 2 ^ q)"
    using assms(4) by (intro mult_right_mono) auto
  also have "\<dots> = c * 2 ^ e"
    using assms(5) by (simp add: power_add)
  finally show ?thesis .
qed

lemma chain_lower_end:
  fixes f :: real
  assumes "m * 2 ^ e \<le> f ^ n" "2 ^ r < m" "k = e + r"
  shows "2 ^ k < f ^ n"
proof -
  have "(2::real) ^ k = 2 ^ r * 2 ^ e"
    using assms(3) by (simp add: power_add)
  also have "\<dots> < m * 2 ^ e"
    using assms(2) by (intro mult_strict_right_mono) auto
  finally show ?thesis using assms(1) by linarith
qed

lemma chain_upper_end:
  fixes f :: real
  assumes "f ^ n \<le> m * 2 ^ e" "m < 2 ^ r" "k = e + r"
  shows "f ^ n < 2 ^ k"
proof -
  have "m * 2 ^ e < 2 ^ r * (2::real) ^ e"
    using assms(2) by (intro mult_strict_right_mono) auto
  also have "\<dots> = 2 ^ k"
    using assms(3) by (simp add: power_add)
  finally show ?thesis using assms(1) by linarith
qed

lemma log2_5_lower_fine: "4818 / 2075 < log2 5"
proof -
  define f :: real where "f = 5"
  have c1: "5 * 2 ^ 0 \<le> f ^ 1" by (simp add: f_def)
  have c2: "25 * 2 ^ 0 \<le> f ^ 2"
    by (rule chain_lower [OF c1 c1, where s = 0]) simp_all
  have c4: "625 * 2 ^ 0 \<le> f ^ 4"
    by (rule chain_lower [OF c2 c2, where s = 0]) simp_all
  have c8: "390625 * 2 ^ 0 \<le> f ^ 8"
    by (rule chain_lower [OF c4 c4, where s = 0]) simp_all
  have c16: "152587890625 * 2 ^ 0 \<le> f ^ 16"
    by (rule chain_lower [OF c8 c8, where s = 0]) simp_all
  have c32: "173472347597680 * 2 ^ 27 \<le> f ^ 32"
    by (rule chain_lower [OF c16 c16, where s = 27]) simp_all
  have c64: "213821176807373 * 2 ^ 101 \<le> f ^ 64"
    by (rule chain_lower [OF c32 c32, where s = 47]) simp_all
  have c128: "162428277588197 * 2 ^ 250 \<le> f ^ 128"
    by (rule chain_lower [OF c64 c64, where s = 48]) simp_all
  have c129: "203035346985246 * 2 ^ 252 \<le> f ^ 129"
    by (rule chain_lower [OF c128 c1, where s = 2]) simp_all
  have c258: "146454766981986 * 2 ^ 552 \<le> f ^ 258"
    by (rule chain_lower [OF c129 c129, where s = 48]) simp_all
  have c259: "183068458727482 * 2 ^ 554 \<le> f ^ 259"
    by (rule chain_lower [OF c258 c1, where s = 2]) simp_all
  have c518: "238131722915509 * 2 ^ 1155 \<le> f ^ 518"
    by (rule chain_lower [OF c259 c259, where s = 47]) simp_all
  have c1036: "201462730795429 * 2 ^ 2358 \<le> f ^ 1036"
    by (rule chain_lower [OF c518 c518, where s = 48]) simp_all
  have c1037: "251828413494286 * 2 ^ 2360 \<le> f ^ 1037"
    by (rule chain_lower [OF c1036 c1, where s = 2]) simp_all
  have c2074: "225304396803413 * 2 ^ 4768 \<le> f ^ 2074"
    by (rule chain_lower [OF c1037 c1037, where s = 48]) simp_all
  have c2075: "140815248002133 * 2 ^ 4771 \<le> f ^ 2075"
    by (rule chain_lower [OF c2074 c1, where s = 3]) simp_all
  have "(2::real) ^ 4818 < f ^ 2075"
    by (rule chain_lower_end [OF c2075, where r = 47]) simp_all
  then have "(2::real) ^ 4818 < 5 ^ 2075"
    unfolding f_def .
  then have "of_nat 4818 * log2 2 < of_nat 2075 * log2 5"
    by (rule log2_pow_less) simp_all
  then show ?thesis by (simp add: log2_2)
qed

lemma log2_5_upper_fine: "log2 5 < 1493 / 643"
proof -
  define f :: real where "f = 5"
  have fpos: "0 \<le> f" by (simp add: f_def)
  have c1: "f ^ 1 \<le> 5 * 2 ^ 0" by (simp add: f_def)
  have c2: "f ^ 2 \<le> 25 * 2 ^ 0"
    by (rule chain_upper [OF fpos c1 c1, where s = 0]) simp_all
  have c4: "f ^ 4 \<le> 625 * 2 ^ 0"
    by (rule chain_upper [OF fpos c2 c2, where s = 0]) simp_all
  have c5: "f ^ 5 \<le> 3125 * 2 ^ 0"
    by (rule chain_upper [OF fpos c4 c1, where s = 0]) simp_all
  have c10: "f ^ 10 \<le> 9765625 * 2 ^ 0"
    by (rule chain_upper [OF fpos c5 c5, where s = 0]) simp_all
  have c20: "f ^ 20 \<le> 95367431640625 * 2 ^ 0"
    by (rule chain_upper [OF fpos c10 c10, where s = 0]) simp_all
  have c40: "f ^ 40 \<le> 258493941422822 * 2 ^ 45"
    by (rule chain_upper [OF fpos c20 c20, where s = 45]) simp_all
  have c80: "f ^ 80 \<le> 237389193643997 * 2 ^ 138"
    by (rule chain_upper [OF fpos c40 c40, where s = 48]) simp_all
  have c160: "f ^ 160 \<le> 200208309518314 * 2 ^ 324"
    by (rule chain_upper [OF fpos c80 c80, where s = 48]) simp_all
  have c320: "f ^ 320 \<le> 142404726944467 * 2 ^ 696"
    by (rule chain_upper [OF fpos c160 c160, where s = 48]) simp_all
  have c321: "f ^ 321 \<le> 178005908680584 * 2 ^ 698"
    by (rule chain_upper [OF fpos c320 c1, where s = 2]) simp_all
  have c642: "f ^ 642 \<le> 225143306843737 * 2 ^ 1443"
    by (rule chain_upper [OF fpos c321 c321, where s = 47]) simp_all
  have c643: "f ^ 643 \<le> 281429133554672 * 2 ^ 1445"
    by (rule chain_upper [OF fpos c642 c1, where s = 2]) simp_all
  have "f ^ 643 < (2::real) ^ 1493"
    by (rule chain_upper_end [OF c643, where r = 48]) simp_all
  then have "(5::real) ^ 643 < 2 ^ 1493"
    unfolding f_def .
  then have "of_nat 643 * log2 5 < of_nat 1493 * log2 2"
    by (rule log2_pow_less) simp_all
  then show ?thesis by (simp add: log2_2)
qed

section \<open>The just-intonation matcher\<close>

lemma abs_signedDelta_le: "\<bar>signedDelta t c\<bar> \<le> \<bar>c - t\<bar>"
proof (cases "- 600 \<le> c - t \<and> c - t < 600")
  case True
  then have "signedDelta t c = c - t + 1200 * of_int 0"
    by (intro signedDelta_unique) auto
  then show ?thesis by simp
next
  case False
  then have "600 \<le> \<bar>c - t\<bar>" by linarith
  moreover have "\<bar>signedDelta t c\<bar> \<le> 600"
    using signedDelta_range [of t c] by linarith
  ultimately show ?thesis by linarith
qed

lemma abs_signedDelta_ge:
  assumes "e \<le> \<bar>c - t\<bar>" "\<bar>c - t\<bar> \<le> 1200 - e"
  shows "e \<le> \<bar>signedDelta t c\<bar>"
proof -
  obtain k :: int where k: "signedDelta t c = c - t + 1200 * of_int k"
    using signedDelta_cong by blast
  show ?thesis
  proof (cases "k = 0")
    case True
    with k assms show ?thesis by simp
  next
    case False
    then have "1 \<le> \<bar>k\<bar>" by linarith
    then have "(1::real) \<le> \<bar>of_int k\<bar>"
      by (metis of_int_1_le_iff of_int_abs)
    then have "1200 \<le> \<bar>1200 * (of_int k :: real)\<bar>"
      by (simp add: abs_mult)
    then have "1200 - \<bar>c - t\<bar> \<le> \<bar>c - t + 1200 * of_int k\<bar>"
      by linarith
    with k assms show ?thesis by linarith
  qed
qed

lemma just_loop_Cons:
  "just_loop t (j # js) best =
     just_loop t js (if just_err t j < jb_err best then just_best t j else best)"
  by (simp add: Let_def just_err_def just_best_def)

declare just_loop.simps(2) [simp del]

lemma just_loop_first_min:
  "(just_loop t js best = best \<and> (\<forall>j \<in> set js. jb_err best \<le> just_err t j)) \<or>
   (\<exists>i<length js. just_loop t js best = just_best t (js ! i) \<and>
       just_err t (js ! i) < jb_err best \<and>
       (\<forall>k<length js. just_err t (js ! i) \<le> just_err t (js ! k)) \<and>
       (\<forall>k<i. just_err t (js ! i) < just_err t (js ! k)))"
proof (induction js arbitrary: best)
  case Nil
  then show ?case by simp
next
  case (Cons j js)
  show ?case
  proof (cases "just_err t j < jb_err best")
    case True
    then have step: "just_loop t (j # js) best = just_loop t js (just_best t j)"
      by (simp add: just_loop_Cons)
    have e: "jb_err (just_best t j) = just_err t j"
      by (simp add: just_best_def)
    from Cons.IH [of "just_best t j"] show ?thesis
    proof (elim disjE conjE exE)
      assume a: "just_loop t js (just_best t j) = just_best t j"
        and b: "\<forall>j' \<in> set js. jb_err (just_best t j) \<le> just_err t j'"
      have "\<forall>k<length (j # js). just_err t ((j # js) ! 0) \<le> just_err t ((j # js) ! k)"
        using b e by (auto simp: nth_Cons split: nat.splits)
      then show ?thesis
        using a True step by (intro disjI2 exI [of _ 0]) simp
    next
      fix i
      assume i: "i < length js"
        and a: "just_loop t js (just_best t j) = just_best t (js ! i)"
        and b: "just_err t (js ! i) < jb_err (just_best t j)"
        and c: "\<forall>k<length js. just_err t (js ! i) \<le> just_err t (js ! k)"
        and d: "\<forall>k<i. just_err t (js ! i) < just_err t (js ! k)"
      have c': "\<forall>k<length (j # js). just_err t ((j # js) ! Suc i) \<le> just_err t ((j # js) ! k)"
        using b c e by (auto simp: nth_Cons split: nat.splits)
      have d': "\<forall>k<Suc i. just_err t ((j # js) ! Suc i) < just_err t ((j # js) ! k)"
        using b d e by (auto simp: nth_Cons split: nat.splits)
      have "just_err t ((j # js) ! Suc i) < jb_err best"
        using b e True by simp
      then show ?thesis
        using i a step c' d' by (intro disjI2 exI [of _ "Suc i"]) simp
    qed
  next
    case False
    then have step: "just_loop t (j # js) best = just_loop t js best"
      by (simp add: just_loop_Cons)
    from Cons.IH [of best] show ?thesis
    proof (elim disjE conjE exE)
      assume a: "just_loop t js best = best"
        and b: "\<forall>j' \<in> set js. jb_err best \<le> just_err t j'"
      then show ?thesis using False step by auto
    next
      fix i
      assume i: "i < length js"
        and a: "just_loop t js best = just_best t (js ! i)"
        and b: "just_err t (js ! i) < jb_err best"
        and c: "\<forall>k<length js. just_err t (js ! i) \<le> just_err t (js ! k)"
        and d: "\<forall>k<i. just_err t (js ! i) < just_err t (js ! k)"
      have c': "\<forall>k<length (j # js). just_err t ((j # js) ! Suc i) \<le> just_err t ((j # js) ! k)"
        using b c False by (auto simp: nth_Cons split: nat.splits)
      have d': "\<forall>k<Suc i. just_err t ((j # js) ! Suc i) < just_err t ((j # js) ! k)"
        using b d False by (auto simp: nth_Cons split: nat.splits)
      show ?thesis
        using i a b step c' d' by (intro disjI2 exI [of _ "Suc i"]) simp
    qed
  qed
qed


lemma just_err_le_600: "just_err t j \<le> 600"
  using signedDelta_range [of t "just_cents j"] by (simp add: just_err_def abs_le_iff)

lemma length_JUST_SET: "length JUST_SET = 13"
  by (simp add: JUST_SET_def)

lemma just_search_first_min:
  "\<exists>i<length JUST_SET. just_search t = just_result (JUST_SET ! i) \<and>
     (\<forall>k<length JUST_SET. just_err t (JUST_SET ! i) \<le> just_err t (JUST_SET ! k)) \<and>
     (\<forall>k<i. just_err t (JUST_SET ! i) < just_err t (JUST_SET ! k))"
proof -
  let ?init = "\<lparr>jb_name = [], jb_frac = (1, 1), jb_cents = 0, jb_err = 1000000000\<rparr>"
  have "\<not> (\<forall>j \<in> set JUST_SET. jb_err ?init \<le> just_err t j)"
  proof
    assume a: "\<forall>j \<in> set JUST_SET. jb_err ?init \<le> just_err t j"
    have "JUST_SET ! 0 \<in> set JUST_SET"
      by (rule nth_mem) (simp add: length_JUST_SET)
    with a have "1000000000 \<le> just_err t (JUST_SET ! 0)" by auto
    with just_err_le_600 [of t "JUST_SET ! 0"] show False by simp
  qed
  with just_loop_first_min [of t JUST_SET ?init]
  obtain i where i: "i < length JUST_SET"
    and r: "just_loop t JUST_SET ?init = just_best t (JUST_SET ! i)"
    and m: "\<forall>k<length JUST_SET. just_err t (JUST_SET ! i) \<le> just_err t (JUST_SET ! k)"
    and f: "\<forall>k<i. just_err t (JUST_SET ! i) < just_err t (JUST_SET ! k)"
    by blast
  have "just_search t = just_result (JUST_SET ! i)"
    by (simp add: just_search_def r just_best_def just_result_def)
  with i m f show ?thesis by blast
qed

lemma just_search_threshold:
  assumes i: "i < length JUST_SET"
    and near: "\<bar>just_cents (JUST_SET ! i) - t\<bar> < e"
    and far: "\<forall>j \<in> set JUST_SET. j \<noteq> JUST_SET ! i \<longrightarrow>
               e \<le> \<bar>just_cents j - t\<bar> \<and> \<bar>just_cents j - t\<bar> \<le> 1200 - e"
  shows "just_search t = just_result (JUST_SET ! i)"
proof -
  obtain i' where i': "i' < length JUST_SET"
    and r: "just_search t = just_result (JUST_SET ! i')"
    and m: "\<forall>k<length JUST_SET. just_err t (JUST_SET ! i') \<le> just_err t (JUST_SET ! k)"
    using just_search_first_min by blast
  have "JUST_SET ! i' = JUST_SET ! i"
  proof (rule ccontr)
    assume ne: "JUST_SET ! i' \<noteq> JUST_SET ! i"
    have "JUST_SET ! i' \<in> set JUST_SET" using i' by simp
    with far ne have "e \<le> just_err t (JUST_SET ! i')"
      unfolding just_err_def by (intro abs_signedDelta_ge) auto
    moreover have "just_err t (JUST_SET ! i) < e"
      using near abs_signedDelta_le [of t "just_cents (JUST_SET ! i)"]
      by (simp add: just_err_def)
    ultimately show False using m i by fastforce
  qed
  with r show ?thesis by simp
qed

lemma log2_numerals:
  "log2 4 = 2" "log2 8 = 3" "log2 16 = 4" "log2 32 = 5"
  "log2 6 = 1 + log2 3" "log2 9 = 2 * log2 3" "log2 10 = 1 + log2 5"
  "log2 15 = log2 3 + log2 5" "log2 45 = 2 * log2 3 + log2 5"
proof -
  have p: "log2 (2 ^ n) = of_nat n" for n
    by (simp add: log2_pow log2_2)
  show "log2 4 = 2" using p [of 2] by simp
  show "log2 8 = 3" using p [of 3] by simp
  show "log2 16 = 4" using p [of 4] by simp
  show "log2 32 = 5" using p [of 5] by simp
  show "log2 6 = 1 + log2 3" using log2_mult [of 2 3] by (simp add: log2_2)
  show 9: "log2 9 = 2 * log2 3" using log2_mult [of 3 3] by simp
  show "log2 10 = 1 + log2 5" using log2_mult [of 2 5] by (simp add: log2_2)
  show "log2 15 = log2 3 + log2 5" using log2_mult [of 3 5] by simp
  show "log2 45 = 2 * log2 3 + log2 5" using log2_mult [of 9 5] 9 by simp
qed

lemma log2_1: "log2 1 = 0"
  by (simp add: log2_def)

lemma just_cents_fracs:
  "just_cents \<lparr>je_name = n, je_frac = (1, 1)\<rparr> = 0"
  "just_cents \<lparr>je_name = n, je_frac = (16, 15)\<rparr> = 1200 * (4 - log2 3 - log2 5)"
  "just_cents \<lparr>je_name = n, je_frac = (10, 9)\<rparr> = 1200 * (1 + log2 5 - 2 * log2 3)"
  "just_cents \<lparr>je_name = n, je_frac = (9, 8)\<rparr> = 1200 * (2 * log2 3 - 3)"
  "just_cents \<lparr>je_name = n, je_frac = (6, 5)\<rparr> = 1200 * (1 + log2 3 - log2 5)"
  "just_cents \<lparr>je_name = n, je_frac = (5, 4)\<rparr> = 1200 * (log2 5 - 2)"
  "just_cents \<lparr>je_name = n, je_frac = (4, 3)\<rparr> = 1200 * (2 - log2 3)"
  "just_cents \<lparr>je_name = n, je_frac = (45, 32)\<rparr> = 1200 * (2 * log2 3 + log2 5 - 5)"
  "just_cents \<lparr>je_name = n, je_frac = (3, 2)\<rparr> = 1200 * (log2 3 - 1)"
  "just_cents \<lparr>je_name = n, je_frac = (8, 5)\<rparr> = 1200 * (3 - log2 5)"
  "just_cents \<lparr>je_name = n, je_frac = (5, 3)\<rparr> = 1200 * (log2 5 - log2 3)"
  "just_cents \<lparr>je_name = n, je_frac = (16, 9)\<rparr> = 1200 * (4 - 2 * log2 3)"
  "just_cents \<lparr>je_name = n, je_frac = (15, 8)\<rparr> = 1200 * (log2 3 + log2 5 - 3)"
  by (simp_all add: just_cents_def toCents_eq log2_divide log2_numerals log2_2 log2_1
        algebra_simps)

lemma le_abs_real: "e \<le> \<bar>a\<bar> \<longleftrightarrow> e \<le> a \<or> e \<le> - (a::real)"
  by linarith

lemmas log_bounds = log2_3_lower log2_3_upper log2_5_lower log2_5_upper

lemma just_search_386: "just_search 386 = just_result (JUST_SET ! 5)"
proof (rule just_search_threshold [where e = 1])
  show "5 < length JUST_SET" by (simp add: length_JUST_SET)
  show "\<bar>just_cents (JUST_SET ! 5) - 386\<bar> < 1"
    using log_bounds by (simp add: JUST_SET_def just_cents_fracs abs_less_iff abs_le_iff le_abs_real)
  show "\<forall>j \<in> set JUST_SET. j \<noteq> JUST_SET ! 5 \<longrightarrow>
      1 \<le> \<bar>just_cents j - 386\<bar> \<and> \<bar>just_cents j - 386\<bar> \<le> 1200 - 1"
    using log_bounds by (simp add: JUST_SET_def just_cents_fracs abs_less_iff abs_le_iff le_abs_real)
qed

lemma just_search_400: "just_search 400 = just_result (JUST_SET ! 5)"
proof (rule just_search_threshold [where e = 20])
  show "5 < length JUST_SET" by (simp add: length_JUST_SET)
  show "\<bar>just_cents (JUST_SET ! 5) - 400\<bar> < 20"
    using log_bounds by (simp add: JUST_SET_def just_cents_fracs abs_less_iff abs_le_iff le_abs_real)
  show "\<forall>j \<in> set JUST_SET. j \<noteq> JUST_SET ! 5 \<longrightarrow>
      20 \<le> \<bar>just_cents j - 400\<bar> \<and> \<bar>just_cents j - 400\<bar> \<le> 1200 - 20"
    using log_bounds by (simp add: JUST_SET_def just_cents_fracs abs_less_iff abs_le_iff le_abs_real)
qed

lemma just_search_200: "just_search 200 = just_result (JUST_SET ! 3)"
proof (rule just_search_threshold [where e = 10])
  show "3 < length JUST_SET" by (simp add: length_JUST_SET)
  show "\<bar>just_cents (JUST_SET ! 3) - 200\<bar> < 10"
    using log_bounds by (simp add: JUST_SET_def just_cents_fracs abs_less_iff abs_le_iff le_abs_real)
  show "\<forall>j \<in> set JUST_SET. j \<noteq> JUST_SET ! 3 \<longrightarrow>
      10 \<le> \<bar>just_cents j - 200\<bar> \<and> \<bar>just_cents j - 200\<bar> \<le> 1200 - 10"
    using log_bounds by (simp add: JUST_SET_def just_cents_fracs abs_less_iff abs_le_iff le_abs_real)
qed

lemma log2_5_decimal: "23219277 / 10000000 < log2 5" "log2 5 < 23219285 / 10000000"
  using log2_5_lower_fine log2_5_upper_fine by simp_all

lemmas fine_bounds = log2_3_lower log2_3_upper log2_5_decimal

lemma signedDelta_near: "- 600 \<le> c - t \<Longrightarrow> c - t < 600 \<Longrightarrow> signedDelta t c = c - t"
  using signedDelta_unique [of c t 0] by simp

lemma nearestJust_hit:
  "cache (Math_round (t * 1000)) = Some hit \<Longrightarrow> nearestJust cache t = (hit, cache)"
  by (simp add: nearestJust_def Let_def)

lemma nearestJust_miss:
  "cache (Math_round (t * 1000)) = None \<Longrightarrow>
   nearestJust cache t = (just_search t, cache(Math_round (t * 1000) \<mapsto> just_search t))"
  by (simp add: nearestJust_def Let_def)

lemma just_search_unique_min:
  assumes i: "i < length JUST_SET"
    and less: "\<forall>j \<in> set JUST_SET. j \<noteq> JUST_SET ! i \<longrightarrow>
                just_err t (JUST_SET ! i) < just_err t j"
  shows "just_search t = just_result (JUST_SET ! i)"
proof -
  obtain i' where i': "i' < length JUST_SET"
    and r: "just_search t = just_result (JUST_SET ! i')"
    and m: "\<forall>k<length JUST_SET. just_err t (JUST_SET ! i') \<le> just_err t (JUST_SET ! k)"
    using just_search_first_min by blast
  have "JUST_SET ! i' = JUST_SET ! i"
  proof (rule ccontr)
    assume ne: "JUST_SET ! i' \<noteq> JUST_SET ! i"
    have "JUST_SET ! i' \<in> set JUST_SET" using i' by simp
    with less ne have "just_err t (JUST_SET ! i) < just_err t (JUST_SET ! i')" by blast
    then show False using m i by fastforce
  qed
  with r show ?thesis by simp
qed

lemma just_far:
  assumes "e \<le> \<bar>just_cents j - t\<bar> \<and> \<bar>just_cents j - t\<bar> \<le> 1200 - e"
  shows "e \<le> just_err t j"
  unfolding just_err_def using assms by (intro abs_signedDelta_ge) auto

lemma just_search_193_1566: "just_search (1931566 / 10000) = just_result (JUST_SET ! 2)"
proof (rule just_search_unique_min)
  let ?t = "1931566 / 10000 :: real"
  let ?e2 = "\<lparr>je_name = ''10/9 (2m)'', je_frac = (10, 9)\<rparr>"
  let ?e3 = "\<lparr>je_name = ''9/8 (2M)'', je_frac = (9, 8)\<rparr>"
  show "2 < length JUST_SET" by (simp add: length_JUST_SET)
  have e2: "just_err ?t ?e2 = ?t - 1200 * (1 + log2 5 - 2 * log2 3)"
    unfolding just_err_def just_cents_fracs
    using fine_bounds by (subst signedDelta_near) auto
  have e3: "just_err ?t ?e3 = 1200 * (2 * log2 3 - 3) - ?t"
    unfolding just_err_def just_cents_fracs
    using fine_bounds by (subst signedDelta_near) auto
  have "\<forall>j \<in> set JUST_SET. j \<noteq> ?e2 \<longrightarrow> j \<noteq> ?e3 \<longrightarrow>
      20 \<le> \<bar>just_cents j - ?t\<bar> \<and> \<bar>just_cents j - ?t\<bar> \<le> 1200 - 20"
    using fine_bounds
    by (simp add: JUST_SET_def just_cents_fracs abs_le_iff le_abs_real)
  then have far: "\<forall>j \<in> set JUST_SET. j \<noteq> ?e2 \<longrightarrow> j \<noteq> ?e3 \<longrightarrow> 20 \<le> just_err ?t j"
    using just_far by blast
  have lt: "just_err ?t ?e2 < just_err ?t ?e3" "just_err ?t ?e2 < 20"
    unfolding e2 e3 using fine_bounds by auto
  show "\<forall>j \<in> set JUST_SET. j \<noteq> JUST_SET ! 2 \<longrightarrow>
      just_err ?t (JUST_SET ! 2) < just_err ?t j"
  proof (intro ballI impI)
    fix j assume j: "j \<in> set JUST_SET" "j \<noteq> JUST_SET ! 2"
    have s: "JUST_SET ! 2 = ?e2" by (simp add: JUST_SET_def)
    show "just_err ?t (JUST_SET ! 2) < just_err ?t j"
    proof (cases "j = ?e3")
      case True
      then show ?thesis using lt s by simp
    next
      case False
      with far j s have "20 \<le> just_err ?t j" by simp
      with lt s show ?thesis by simp
    qed
  qed
qed


lemma just_err_193_1574:
  "just_err (1931574 / 10000) (JUST_SET ! 3) < just_err (1931574 / 10000) (JUST_SET ! 2)"
proof -
  let ?t = "1931574 / 10000 :: real"
  let ?e2 = "\<lparr>je_name = ''10/9 (2m)'', je_frac = (10, 9)\<rparr>"
  let ?e3 = "\<lparr>je_name = ''9/8 (2M)'', je_frac = (9, 8)\<rparr>"
  have e2: "just_err ?t ?e2 = ?t - 1200 * (1 + log2 5 - 2 * log2 3)"
    unfolding just_err_def just_cents_fracs
    using fine_bounds by (subst signedDelta_near) auto
  have e3: "just_err ?t ?e3 = 1200 * (2 * log2 3 - 3) - ?t"
    unfolding just_err_def just_cents_fracs
    using fine_bounds by (subst signedDelta_near) auto
  have "just_err ?t ?e3 < just_err ?t ?e2"
    unfolding e2 e3 using fine_bounds by auto
  then show ?thesis by (simp add: JUST_SET_def)
qed

text \<open>
  C6, as stated, fails on a cache hit. The targets 193.1566 and 193.1574 round to the same
  key 193157, and the boundary between the entries 10/9 and 9/8 lies between them. After a
  lookup of 193.1566 from an empty cache, the lookup of 193.1574 returns the stored entry
  10/9, although the entry 9/8 is strictly nearer to 193.1574.
\<close>

theorem nearestJust_cache_counterexample:
  "fst (nearestJust (snd (nearestJust Map.empty (1931566 / 10000))) (1931574 / 10000)) =
     just_result (JUST_SET ! 2) \<and>
   je_frac (JUST_SET ! 2) = (10, 9) \<and> je_frac (JUST_SET ! 3) = (9, 8) \<and>
   \<bar>signedDelta (1931574 / 10000) (just_cents (JUST_SET ! 3))\<bar> <
     \<bar>signedDelta (1931574 / 10000) (just_cents (JUST_SET ! 2))\<bar>"
proof -
  have "\<lfloor>(1931571::real) / 10\<rfloor> = 193157" by linarith
  then have k0: "Math_round (1931566 / 10000 * 1000) = 193157"
    by (simp add: Math_round_def)
  have "\<lfloor>(1931579::real) / 10\<rfloor> = 193157" by linarith
  then have k1: "Math_round (1931574 / 10000 * 1000) = 193157"
    by (simp add: Math_round_def)
  have n0: "nearestJust Map.empty (1931566 / 10000) =
      (just_search (1931566 / 10000),
       [Math_round (1931566 / 10000 * 1000) \<mapsto> just_search (1931566 / 10000)])"
    by (rule nearestJust_miss) simp
  have c0: "snd (nearestJust Map.empty (1931566 / 10000)) =
      [193157 \<mapsto> just_result (JUST_SET ! 2)]"
    unfolding n0 k0 just_search_193_1566 by (rule snd_conv)
  have "fst (nearestJust (snd (nearestJust Map.empty (1931566 / 10000))) (1931574 / 10000)) =
     just_result (JUST_SET ! 2)"
    unfolding c0 by (subst nearestJust_hit [where hit = "just_result (JUST_SET ! 2)"]) (simp_all only: k1 fun_upd_same fst_conv)
  moreover have "je_frac (JUST_SET ! 2) = (10, 9) \<and> je_frac (JUST_SET ! 3) = (9, 8)"
    by (simp add: JUST_SET_def)
  ultimately show ?thesis
    using just_err_193_1574 by (simp add: just_err_def)
qed

text \<open>
  C6, amended. The table has 13 entries. On a cache miss (no entry stored under the key
  \<open>round (1000 target)\<close>), \<open>nearestJust\<close> returns the name, fraction and cents of a
  table entry that minimises \<open>\<bar>signedDelta target entryCents\<bar>\<close> over the table, and
  among the minimising entries the earliest in table order. On a cache hit it returns the
  stored result. A lookup of 386 cents with an empty cache returns the entry named
  \<open>5/4 (3M)\<close>.
\<close>

theorem nearestJust_spec:
  "length JUST_SET = 13 \<and>
   (cache (Math_round (t * 1000)) = None \<longrightarrow>
      (\<exists>i<length JUST_SET.
         j_name (fst (nearestJust cache t)) = je_name (JUST_SET ! i) \<and>
         j_frac (fst (nearestJust cache t)) = je_frac (JUST_SET ! i) \<and>
         j_cents (fst (nearestJust cache t)) =
           toCents (of_int (fst (je_frac (JUST_SET ! i))) / of_int (snd (je_frac (JUST_SET ! i)))) \<and>
         (\<forall>k<length JUST_SET.
            \<bar>signedDelta t (just_cents (JUST_SET ! i))\<bar> \<le> \<bar>signedDelta t (just_cents (JUST_SET ! k))\<bar>) \<and>
         (\<forall>k<i.
            \<bar>signedDelta t (just_cents (JUST_SET ! i))\<bar> < \<bar>signedDelta t (just_cents (JUST_SET ! k))\<bar>))) \<and>
   (\<forall>hit. cache (Math_round (t * 1000)) = Some hit \<longrightarrow> fst (nearestJust cache t) = hit) \<and>
   j_name (fst (nearestJust Map.empty 386)) = ''5/4 (3M)''"
proof -
  have 1: "length JUST_SET = 13" by (rule length_JUST_SET)
  have 2: "\<exists>i<length JUST_SET.
         j_name (fst (nearestJust cache t)) = je_name (JUST_SET ! i) \<and>
         j_frac (fst (nearestJust cache t)) = je_frac (JUST_SET ! i) \<and>
         j_cents (fst (nearestJust cache t)) =
           toCents (of_int (fst (je_frac (JUST_SET ! i))) / of_int (snd (je_frac (JUST_SET ! i)))) \<and>
         (\<forall>k<length JUST_SET.
            \<bar>signedDelta t (just_cents (JUST_SET ! i))\<bar> \<le> \<bar>signedDelta t (just_cents (JUST_SET ! k))\<bar>) \<and>
         (\<forall>k<i.
            \<bar>signedDelta t (just_cents (JUST_SET ! i))\<bar> < \<bar>signedDelta t (just_cents (JUST_SET ! k))\<bar>)"
    if miss: "cache (Math_round (t * 1000)) = None"
  proof -
    obtain i where i: "i < length JUST_SET"
      and r: "just_search t = just_result (JUST_SET ! i)"
      and m: "\<forall>k<length JUST_SET. just_err t (JUST_SET ! i) \<le> just_err t (JUST_SET ! k)"
      and f: "\<forall>k<i. just_err t (JUST_SET ! i) < just_err t (JUST_SET ! k)"
      using just_search_first_min by blast
    have "fst (nearestJust cache t) = just_result (JUST_SET ! i)"
      using miss r by (simp add: nearestJust_miss)
    then show ?thesis
      using i m f unfolding just_err_def
      by (intro exI [of _ i]) (simp add: just_result_def just_cents_def)
  qed
  have 3: "\<forall>hit. cache (Math_round (t * 1000)) = Some hit \<longrightarrow> fst (nearestJust cache t) = hit"
    by (simp add: nearestJust_hit)
  have 4: "j_name (fst (nearestJust Map.empty 386)) = ''5/4 (3M)''"
    by (simp add: nearestJust_miss just_search_386 just_result_def JUST_SET_def)
  from 1 2 3 4 show ?thesis by blast
qed

theorem nearestJust_spec_witness:
  "(\<exists>i. i < length JUST_SET \<and>
        j_frac (fst (nearestJust Map.empty 386)) = je_frac (JUST_SET ! i)) \<and>
   fst (nearestJust [386000 \<mapsto> just_result (JUST_SET ! 0)] 386) = just_result (JUST_SET ! 0)"
proof -
  have k: "Math_round (386 * 1000) = 386000"
    by (simp add: Math_round_def)
  have a: "\<exists>i. i < length JUST_SET \<and>
        j_frac (fst (nearestJust Map.empty 386)) = je_frac (JUST_SET ! i)"
    using nearestJust_spec [of Map.empty 386] by auto
  have "fst (nearestJust [386000 \<mapsto> just_result (JUST_SET ! 0)] 386) = just_result (JUST_SET ! 0)"
    using nearestJust_spec [of "[386000 \<mapsto> just_result (JUST_SET ! 0)]" 386] k by simp
  with a show ?thesis by simp
qed

section \<open>The Pythagorean solver\<close>

lemma pyth_loop_Cons:
  "pyth_loop t (b # bs) best =
     pyth_loop t bs
       (if (case pb_err best of None \<Rightarrow> True | Some e \<Rightarrow> pyth_err t b < e)
        then pyth_best t b else best)"
  unfolding pyth_err_def pyth_best_def pyth_cents_def pyth_ratio_def pyth_a_def
  by (simp add: Let_def)

declare pyth_loop.simps(2) [simp del]

lemma pyth_loop_first_min:
  "(pyth_loop t bs best = best \<and>
      (\<forall>b \<in> set bs. \<exists>e. pb_err best = Some e \<and> e \<le> pyth_err t b)) \<or>
   (\<exists>i<length bs. pyth_loop t bs best = pyth_best t (bs ! i) \<and>
       (\<forall>e. pb_err best = Some e \<longrightarrow> pyth_err t (bs ! i) < e) \<and>
       (\<forall>k<length bs. pyth_err t (bs ! i) \<le> pyth_err t (bs ! k)) \<and>
       (\<forall>k<i. pyth_err t (bs ! i) < pyth_err t (bs ! k)))"
proof (induction bs arbitrary: best)
  case Nil
  then show ?case by simp
next
  case (Cons b bs)
  show ?case
  proof (cases "case pb_err best of None \<Rightarrow> True | Some e \<Rightarrow> pyth_err t b < e")
    case True
    then have step: "pyth_loop t (b # bs) best = pyth_loop t bs (pyth_best t b)"
      by (simp add: pyth_loop_Cons)
    have e: "pb_err (pyth_best t b) = Some (pyth_err t b)"
      by (simp add: pyth_best_def)
    have lt: "\<forall>e. pb_err best = Some e \<longrightarrow> pyth_err t b < e"
      using True by (auto split: option.splits)
    from Cons.IH [of "pyth_best t b"] show ?thesis
    proof (elim disjE conjE exE)
      assume a: "pyth_loop t bs (pyth_best t b) = pyth_best t b"
        and m: "\<forall>b' \<in> set bs. \<exists>e. pb_err (pyth_best t b) = Some e \<and> e \<le> pyth_err t b'"
      have "\<forall>k<length (b # bs). pyth_err t ((b # bs) ! 0) \<le> pyth_err t ((b # bs) ! k)"
        using m e by (auto simp: nth_Cons split: nat.splits)
      then show ?thesis
        using a lt step by (intro disjI2 exI [of _ 0]) simp
    next
      fix i
      assume i: "i < length bs"
        and a: "pyth_loop t bs (pyth_best t b) = pyth_best t (bs ! i)"
        and l: "\<forall>e. pb_err (pyth_best t b) = Some e \<longrightarrow> pyth_err t (bs ! i) < e"
        and c: "\<forall>k<length bs. pyth_err t (bs ! i) \<le> pyth_err t (bs ! k)"
        and d: "\<forall>k<i. pyth_err t (bs ! i) < pyth_err t (bs ! k)"
      have l': "pyth_err t (bs ! i) < pyth_err t b" using l e by simp
      have c': "\<forall>k<length (b # bs). pyth_err t ((b # bs) ! Suc i) \<le> pyth_err t ((b # bs) ! k)"
        using l' c by (auto simp: nth_Cons split: nat.splits)
      have d': "\<forall>k<Suc i. pyth_err t ((b # bs) ! Suc i) < pyth_err t ((b # bs) ! k)"
        using l' d by (auto simp: nth_Cons split: nat.splits)
      have "\<forall>e. pb_err best = Some e \<longrightarrow> pyth_err t ((b # bs) ! Suc i) < e"
        using l' lt by fastforce
      then show ?thesis
        using i a step c' d' by (intro disjI2 exI [of _ "Suc i"]) simp
    qed
  next
    case False
    then have step: "pyth_loop t (b # bs) best = pyth_loop t bs best"
      by (simp add: pyth_loop_Cons)
    from False obtain e0 where e0: "pb_err best = Some e0" "e0 \<le> pyth_err t b"
      by (auto split: option.splits)
    from Cons.IH [of best] show ?thesis
    proof (elim disjE conjE exE)
      assume a: "pyth_loop t bs best = best"
        and m: "\<forall>b' \<in> set bs. \<exists>e. pb_err best = Some e \<and> e \<le> pyth_err t b'"
      then show ?thesis using e0 step by auto
    next
      fix i
      assume i: "i < length bs"
        and a: "pyth_loop t bs best = pyth_best t (bs ! i)"
        and l: "\<forall>e. pb_err best = Some e \<longrightarrow> pyth_err t (bs ! i) < e"
        and c: "\<forall>k<length bs. pyth_err t (bs ! i) \<le> pyth_err t (bs ! k)"
        and d: "\<forall>k<i. pyth_err t (bs ! i) < pyth_err t (bs ! k)"
      have l': "pyth_err t (bs ! i) < pyth_err t b" using l e0 by fastforce
      have c': "\<forall>k<length (b # bs). pyth_err t ((b # bs) ! Suc i) \<le> pyth_err t ((b # bs) ! k)"
        using l' c by (auto simp: nth_Cons split: nat.splits)
      have d': "\<forall>k<Suc i. pyth_err t ((b # bs) ! Suc i) < pyth_err t ((b # bs) ! k)"
        using l' d by (auto simp: nth_Cons split: nat.splits)
      show ?thesis
        using i a l step c' d' by (intro disjI2 exI [of _ "Suc i"]) simp
    qed
  qed
qed

lemma Math_pow_powi: "0 < x \<Longrightarrow> Math_pow x (of_int b) = x powi b"
  by (simp add: Math_pow_def powr_real_of_int')

lemma log2_Math_pow: "0 < x \<Longrightarrow> log2 (Math_pow x y) = y * log2 x"
  by (simp add: log2_def Math_pow_def ln_powr)

lemma pyth_a_eq: "pyth_a b = \<lfloor>of_int b * log2 3\<rfloor>"
  by (simp add: pyth_a_def log2_Math_pow)

lemma log2_pyth_ratio: "log2 (pyth_ratio b) = of_int b * log2 3 - of_int (pyth_a b)"
  by (simp add: pyth_ratio_def log2_divide Math_pow_def log2_Math_pow [unfolded Math_pow_def] log2_2)

lemma pyth_ratio_pos: "0 < pyth_ratio b"
  by (simp add: pyth_ratio_def Math_pow_def)

lemma log2_pyth_ratio_range: "0 \<le> log2 (pyth_ratio b) \<and> log2 (pyth_ratio b) < 1"
  unfolding log2_pyth_ratio pyth_a_eq by linarith

lemma pyth_ratio_range: "1 \<le> pyth_ratio b \<and> pyth_ratio b < 2"
proof -
  have "log 2 1 \<le> log 2 (pyth_ratio b) \<and> log 2 (pyth_ratio b) < log 2 2"
    using log2_pyth_ratio_range [of b] by (simp add: log2_eq_log)
  then show ?thesis
    using pyth_ratio_pos [of b] by (simp del: log_one)
qed

lemma pyth_cents_eq: "pyth_cents b = toCents (pyth_ratio b)"
proof -
  have r: "0 \<le> toCents (pyth_ratio b) \<and> toCents (pyth_ratio b) < 1200"
    using log2_pyth_ratio_range [of b] by (simp add: toCents_eq)
  then have "js_rem (toCents (pyth_ratio b)) 1200 = toCents (pyth_ratio b)"
    using js_rem_unique [of 1200 "toCents (pyth_ratio b)" 0] by simp
  then show ?thesis
    using r by (simp add: pyth_cents_def js_rem_shift)
qed

lemma pyth_cents_closed: "pyth_cents b = 1200 * (of_int b * log2 3 - of_int \<lfloor>of_int b * log2 3\<rfloor>)"
  by (simp add: pyth_cents_eq toCents_eq log2_pyth_ratio pyth_a_eq)

lemma pyth_ratio_powi: "pyth_ratio b = 3 powi b / 2 powi pyth_a b"
  by (simp add: pyth_ratio_def Math_pow_powi)


lemma pyth_floors:
  "\<lfloor>of_int (- 11) * log2 3\<rfloor> = - 18"
  "\<lfloor>of_int (- 10) * log2 3\<rfloor> = - 16"
  "\<lfloor>of_int (- 9) * log2 3\<rfloor> = - 15"
  "\<lfloor>of_int (- 8) * log2 3\<rfloor> = - 13"
  "\<lfloor>of_int (- 7) * log2 3\<rfloor> = - 12"
  "\<lfloor>of_int (- 6) * log2 3\<rfloor> = - 10"
  "\<lfloor>of_int (- 5) * log2 3\<rfloor> = - 8"
  "\<lfloor>of_int (- 4) * log2 3\<rfloor> = - 7"
  "\<lfloor>of_int (- 3) * log2 3\<rfloor> = - 5"
  "\<lfloor>of_int (- 2) * log2 3\<rfloor> = - 4"
  "\<lfloor>of_int (- 1) * log2 3\<rfloor> = - 2"
  "\<lfloor>of_int (0) * log2 3\<rfloor> = 0"
  "\<lfloor>of_int (1) * log2 3\<rfloor> = 1"
  "\<lfloor>of_int (2) * log2 3\<rfloor> = 3"
  "\<lfloor>of_int (3) * log2 3\<rfloor> = 4"
  "\<lfloor>of_int (4) * log2 3\<rfloor> = 6"
  "\<lfloor>of_int (5) * log2 3\<rfloor> = 7"
  "\<lfloor>of_int (6) * log2 3\<rfloor> = 9"
  "\<lfloor>of_int (7) * log2 3\<rfloor> = 11"
  "\<lfloor>of_int (8) * log2 3\<rfloor> = 12"
  "\<lfloor>of_int (9) * log2 3\<rfloor> = 14"
  "\<lfloor>of_int (10) * log2 3\<rfloor> = 15"
  "\<lfloor>of_int (11) * log2 3\<rfloor> = 17"
  using log2_3_lower log2_3_upper by (simp_all, linarith+)

lemma pyth_a_values:
  "pyth_a (- 11) = - 18"
  "pyth_a (- 10) = - 16"
  "pyth_a (- 9) = - 15"
  "pyth_a (- 8) = - 13"
  "pyth_a (- 7) = - 12"
  "pyth_a (- 6) = - 10"
  "pyth_a (- 5) = - 8"
  "pyth_a (- 4) = - 7"
  "pyth_a (- 3) = - 5"
  "pyth_a (- 2) = - 4"
  "pyth_a (- 1) = - 2"
  "pyth_a (0) = 0"
  "pyth_a (1) = 1"
  "pyth_a (2) = 3"
  "pyth_a (3) = 4"
  "pyth_a (4) = 6"
  "pyth_a (5) = 7"
  "pyth_a (6) = 9"
  "pyth_a (7) = 11"
  "pyth_a (8) = 12"
  "pyth_a (9) = 14"
  "pyth_a (10) = 15"
  "pyth_a (11) = 17"
  unfolding pyth_a_eq by (rule pyth_floors)+

lemma pyth_cents_values:
  "pyth_cents (- 11) = 21600 - 13200 * log2 3"
  "pyth_cents (- 10) = 19200 - 12000 * log2 3"
  "pyth_cents (- 9) = 18000 - 10800 * log2 3"
  "pyth_cents (- 8) = 15600 - 9600 * log2 3"
  "pyth_cents (- 7) = 14400 - 8400 * log2 3"
  "pyth_cents (- 6) = 12000 - 7200 * log2 3"
  "pyth_cents (- 5) = 9600 - 6000 * log2 3"
  "pyth_cents (- 4) = 8400 - 4800 * log2 3"
  "pyth_cents (- 3) = 6000 - 3600 * log2 3"
  "pyth_cents (- 2) = 4800 - 2400 * log2 3"
  "pyth_cents (- 1) = 2400 - 1200 * log2 3"
  "pyth_cents (0) = 0"
  "pyth_cents (1) = 1200 * log2 3 - 1200"
  "pyth_cents (2) = 2400 * log2 3 - 3600"
  "pyth_cents (3) = 3600 * log2 3 - 4800"
  "pyth_cents (4) = 4800 * log2 3 - 7200"
  "pyth_cents (5) = 6000 * log2 3 - 8400"
  "pyth_cents (6) = 7200 * log2 3 - 10800"
  "pyth_cents (7) = 8400 * log2 3 - 13200"
  "pyth_cents (8) = 9600 * log2 3 - 14400"
  "pyth_cents (9) = 10800 * log2 3 - 16800"
  "pyth_cents (10) = 12000 * log2 3 - 18000"
  "pyth_cents (11) = 13200 * log2 3 - 20400"
  unfolding pyth_cents_closed pyth_floors by simp_all


lemma gcd_loop_gcd: "gcd_loop a b = gcd a b"
proof (induction a b rule: gcd_loop.induct)
  case (1 a b)
  show ?case
  proof (cases "b = 0")
    case True
    then show ?thesis by (subst gcd_loop.simps) simp
  next
    case False
    then have "gcd_loop a b = gcd_loop b (a mod b)"
      by (subst gcd_loop.simps) simp
    also have "\<dots> = gcd b (a mod b)" using False by (rule "1.IH")
    also have "\<dots> = gcd a b" by (rule gcd_red_nat [symmetric])
    finally show ?thesis .
  qed
qed

lemma gcdInt_gcd: "gcdInt a b = (if a = 0 \<and> b = 0 then 1 else gcd a b)"
proof -
  have "int (gcd (nat \<bar>a\<bar>) (nat \<bar>b\<bar>)) = gcd (int (nat \<bar>a\<bar>)) (int (nat \<bar>b\<bar>))"
    by (simp only: gcd_int_int_eq)
  also have "\<dots> = gcd a b" by simp
  finally have g: "int (gcd (nat \<bar>a\<bar>) (nat \<bar>b\<bar>)) = gcd a b" .
  have z: "gcd (nat \<bar>a\<bar>) (nat \<bar>b\<bar>) = 0 \<longleftrightarrow> a = 0 \<and> b = 0"
    by (simp only: gcd_eq_0_iff nat_eq_iff2) auto
  show ?thesis
    unfolding gcdInt_def Let_def gcd_loop_gcd g z by simp
qed

lemma gcdInt_dvd: "gcdInt a b dvd a \<and> gcdInt a b dvd b"
  by (simp add: gcdInt_gcd)

lemma reduceFraction_coprime:
  "coprime n d \<Longrightarrow> reduceFraction n d = (n, d)"
  unfolding reduceFraction_def Let_def gcdInt_gcd
  by (auto simp: coprime_iff_gcd_eq_1)

lemma showInt_1: "showInt 1 = ''1''"
  by (simp add: showInt_def digits10.simps)

lemma formatRatio_eq: "formatRatio n d = showInt n @ ''/'' @ showInt d"
  by (simp add: formatRatio_def showInt_1)

lemma Math_round_of_int: "Math_round (of_int k) = k"
  unfolding Math_round_def by linarith

lemma Math_round_pow: "Math_round (Math_pow (of_int k) (of_int (int n))) = k ^ n" if "0 < k"
proof -
  have "Math_pow (of_int k) (of_int (int n)) = of_int (k ^ n)"
    using that by (simp add: Math_pow_def powr_realpow)
  then show ?thesis by (simp only: Math_round_of_int)
qed

lemma pyth_a_sign: "(0 \<le> b \<longrightarrow> 0 \<le> pyth_a b) \<and> (b < 0 \<longrightarrow> pyth_a b < 0)"
proof -
  have x: "1 < log2 3" using log2_3_lower by simp
  show ?thesis
  proof (intro conjI impI)
    assume "0 \<le> b"
    then have "0 \<le> of_int b * log2 3" using x by simp
    then show "0 \<le> pyth_a b" unfolding pyth_a_eq by simp
  next
    assume "b < 0"
    then have "of_int b * log2 3 < 0" using x by (simp add: mult_neg_pos)
    then show "pyth_a b < 0" unfolding pyth_a_eq by linarith
  qed
qed

lemma coprime_3_2_pow: "coprime ((3::int) ^ m) (2 ^ n)" "coprime ((2::int) ^ n) (3 ^ m)"
proof -
  have "coprime ((2::int) + 1) 2" by (rule coprime_add_one_left)
  then have "coprime (3::int) 2" by simp
  then show "coprime ((3::int) ^ m) (2 ^ n)" by simp
  then show "coprime ((2::int) ^ n) (3 ^ m)" by (simp add: coprime_commute)
qed

lemma pyth_fraction_best:
  "pyth_fraction (pyth_best t b) =
     (if 0 \<le> b then showInt (3 ^ nat b) @ ''/'' @ showInt (2 ^ nat (pyth_a b))
      else showInt (2 ^ nat (- pyth_a b)) @ ''/'' @ showInt (3 ^ nat (- b)))"
proof (cases "0 \<le> b")
  case True
  then have a: "0 \<le> pyth_a b" using pyth_a_sign by blast
  have n: "Math_round (Math_pow 3 (of_int b)) = 3 ^ nat b"
    using Math_round_pow [of 3 "nat b"] True by simp
  have d: "Math_round (Math_pow 2 (of_int (pyth_a b))) = 2 ^ nat (pyth_a b)"
    using Math_round_pow [of 2 "nat (pyth_a b)"] a by simp
  show ?thesis
    using True a
    by (simp add: pyth_fraction_def pyth_best_def n d reduceFraction_coprime coprime_3_2_pow
          formatRatio_eq)
next
  case False
  then have a: "pyth_a b < 0" using pyth_a_sign [of b] by simp
  have n: "Math_round (Math_pow 2 (- of_int (pyth_a b))) = 2 ^ nat (- pyth_a b)"
    using Math_round_pow [of 2 "nat (- pyth_a b)"] a by simp
  have d: "Math_round (Math_pow 3 (- of_int b)) = 3 ^ nat (- b)"
    using Math_round_pow [of 3 "nat (- b)"] False by simp
  show ?thesis
    using False a
    by (simp add: pyth_fraction_def pyth_best_def n d reduceFraction_coprime coprime_3_2_pow
          formatRatio_eq)
qed

lemma pyth_ratio_fraction:
  "pyth_ratio b =
     (if 0 \<le> b then of_int (3 ^ nat b) / of_int (2 ^ nat (pyth_a b))
      else of_int (2 ^ nat (- pyth_a b)) / of_int (3 ^ nat (- b)))"
proof (cases "0 \<le> b")
  case True
  then have a: "0 \<le> pyth_a b" using pyth_a_sign by blast
  show ?thesis
    using True a by (simp add: pyth_ratio_def Math_pow_def powr_real_of_int)
next
  case False
  then have a: "pyth_a b < 0" using pyth_a_sign [of b] by simp
  show ?thesis
    using False a by (simp add: pyth_ratio_def Math_pow_def powr_real_of_int field_simps)
qed


lemma pyth_search_first_min:
  "\<exists>b \<in> {- 11 .. 11}. pyth_search t = pyth_result t b \<and>
     (\<forall>b' \<in> {- 11 .. 11}. pyth_err t b \<le> pyth_err t b')"
proof -
  let ?init = "\<lparr>pb_b = 0, pb_a = 0, pb_cents = 0, pb_ratio = 1, pb_err = None\<rparr>"
  let ?bs = "[- 11 .. 11] :: int list"
  have "(0::int) \<in> set ?bs"
    by (simp only: set_upto) simp
  then have "\<not> (\<forall>b \<in> set ?bs. \<exists>e. pb_err ?init = Some e \<and> e \<le> pyth_err t b)"
    by (intro notI) (drule (1) bspec, simp)
  with pyth_loop_first_min [of t ?bs ?init]
  obtain i where i: "i < length ?bs"
    and r: "pyth_loop t ?bs ?init = pyth_best t (?bs ! i)"
    and m: "\<forall>k<length ?bs. pyth_err t (?bs ! i) \<le> pyth_err t (?bs ! k)"
    by blast
  have mem: "?bs ! i \<in> {- 11 .. 11}"
    using nth_mem [OF i] by (simp only: set_upto)
  have "\<forall>b' \<in> set ?bs. pyth_err t (?bs ! i) \<le> pyth_err t b'"
    using m by (metis in_set_conv_nth)
  then have min: "\<forall>b' \<in> {- 11 .. 11}. pyth_err t (?bs ! i) \<le> pyth_err t b'"
    by (simp only: set_upto)
  have "pyth_search t = pyth_result t (?bs ! i)"
    unfolding pyth_search_def r by (simp add: pyth_result_def pyth_best_def Let_def)
  with mem min show ?thesis by blast
qed

lemma pyth_search_unique_min:
  assumes b: "b \<in> {- 11 .. 11}"
    and less: "\<forall>b' \<in> {- 11 .. 11}. b' \<noteq> b \<longrightarrow> pyth_err t b < pyth_err t b'"
  shows "pyth_search t = pyth_result t b"
proof -
  obtain b0 where b0: "b0 \<in> {- 11 .. 11}"
    and r: "pyth_search t = pyth_result t b0"
    and m: "\<forall>b' \<in> {- 11 .. 11}. pyth_err t b0 \<le> pyth_err t b'"
    using pyth_search_first_min by blast
  have "b0 = b"
  proof (rule ccontr)
    assume "b0 \<noteq> b"
    with less b0 have "pyth_err t b < pyth_err t b0" by blast
    with m b show False by fastforce
  qed
  with r show ?thesis by simp
qed

lemma pyth_far:
  assumes "e \<le> \<bar>pyth_cents b - t\<bar> \<and> \<bar>pyth_cents b - t\<bar> \<le> 1200 - e"
  shows "e \<le> pyth_err t b"
  unfolding pyth_err_def using assms by (intro abs_signedDelta_ge) auto

lemma pyth_near: "\<bar>pyth_cents b - t\<bar> < e \<Longrightarrow> pyth_err t b < e"
  unfolding pyth_err_def using abs_signedDelta_le [of t "pyth_cents b"] by linarith

lemma candidates_list:
  "{- 11 .. 11 :: int} =
     {- 11, - 10, - 9, - 8, - 7, - 6, - 5, - 4, - 3, - 2, - 1, 0,
      1, 2, 3, 4, 5, 6, 7, 8, 9, 10, 11}"
  by (intro set_eqI) (simp, presburger)

lemma pyth_search_701_955: "pyth_search (701955 / 1000) = pyth_result (701955 / 1000) 1"
proof (rule pyth_search_unique_min)
  let ?t = "701955 / 1000 :: real"
  note b = log2_3_lower log2_3_upper
  show "1 \<in> {- 11 .. 11 :: int}" by simp
  have n: "pyth_err ?t 1 < 1"
    using b by (intro pyth_near) (simp add: pyth_cents_values abs_less_iff)
  have "\<forall>b' \<in> {- 11 .. 11}. b' \<noteq> 1 \<longrightarrow>
      1 \<le> \<bar>pyth_cents b' - ?t\<bar> \<and> \<bar>pyth_cents b' - ?t\<bar> \<le> 1200 - 1"
    unfolding candidates_list using b
    by (simp add: pyth_cents_values abs_le_iff le_abs_real)
  then have "\<forall>b' \<in> {- 11 .. 11}. b' \<noteq> 1 \<longrightarrow> 1 \<le> pyth_err ?t b'"
    using pyth_far by blast
  then show "\<forall>b' \<in> {- 11 .. 11}. b' \<noteq> 1 \<longrightarrow> pyth_err ?t 1 < pyth_err ?t b'"
    using n by fastforce
qed

lemma pyth_fraction_1: "pyth_fraction (pyth_best t 1) = ''3/2''"
  by (simp add: pyth_fraction_best pyth_a_values [simplified] showInt_def digits10.simps)

lemma pyth_fraction_m6: "pyth_fraction (pyth_best t (- 6)) = ''1024/729''"
  by (simp add: pyth_fraction_best pyth_a_values [simplified] showInt_def digits10.simps)


lemma pyth_err_around_600:
  assumes "599 < t" "t < 601"
  shows "pyth_err t (- 6) = t - (12000 - 7200 * log2 3)"
    and "pyth_err t 6 = 7200 * log2 3 - 10800 - t"
    and "\<forall>b' \<in> {- 11 .. 11}. b' \<noteq> - 6 \<longrightarrow> b' \<noteq> 6 \<longrightarrow> 20 \<le> pyth_err t b'"
proof -
  note b = log2_3_lower log2_3_upper
  show "pyth_err t (- 6) = t - (12000 - 7200 * log2 3)"
    unfolding pyth_err_def pyth_cents_values
    using b assms by (subst signedDelta_near) auto
  show "pyth_err t 6 = 7200 * log2 3 - 10800 - t"
    unfolding pyth_err_def pyth_cents_values
    using b assms by (subst signedDelta_near) auto
  have "\<forall>b' \<in> {- 11 .. 11}. b' \<noteq> - 6 \<longrightarrow> b' \<noteq> 6 \<longrightarrow>
      20 \<le> \<bar>pyth_cents b' - t\<bar> \<and> \<bar>pyth_cents b' - t\<bar> \<le> 1200 - 20"
    unfolding candidates_list using b assms
    by (simp add: pyth_cents_values abs_le_iff le_abs_real)
  then show "\<forall>b' \<in> {- 11 .. 11}. b' \<noteq> - 6 \<longrightarrow> b' \<noteq> 6 \<longrightarrow> 20 \<le> pyth_err t b'"
    using pyth_far by blast
qed

lemma pyth_search_599_9999:
  "pyth_search (5999999 / 10000) = pyth_result (5999999 / 10000) (- 6)"
proof (rule pyth_search_unique_min)
  let ?t = "5999999 / 10000 :: real"
  note b = log2_3_lower log2_3_upper
  have r: "599 < ?t" "?t < 601" by simp_all
  note e = pyth_err_around_600 [OF r]
  show "- 6 \<in> {- 11 .. 11 :: int}" by simp
  have lt: "pyth_err ?t (- 6) < pyth_err ?t 6" "pyth_err ?t (- 6) < 20"
    unfolding e(1,2) using b by auto
  show "\<forall>b' \<in> {- 11 .. 11}. b' \<noteq> - 6 \<longrightarrow> pyth_err ?t (- 6) < pyth_err ?t b'"
  proof (intro ballI impI)
    fix b' :: int assume b': "b' \<in> {- 11 .. 11}" "b' \<noteq> - 6"
    show "pyth_err ?t (- 6) < pyth_err ?t b'"
    proof (cases "b' = 6")
      case True
      then show ?thesis using lt by simp
    next
      case False
      with e(3) b' have "20 \<le> pyth_err ?t b'" by blast
      with lt show ?thesis by simp
    qed
  qed
qed

lemma nearestPythagorean_hit:
  "cache (Math_round (t * 1000)) = Some hit \<Longrightarrow> nearestPythagorean cache t = (hit, cache)"
  by (simp add: nearestPythagorean_def Let_def)

lemma nearestPythagorean_miss:
  "cache (Math_round (t * 1000)) = None \<Longrightarrow>
   nearestPythagorean cache t =
     (pyth_search t, cache(Math_round (t * 1000) \<mapsto> pyth_search t))"
  by (simp add: nearestPythagorean_def Let_def)

text \<open>
  C3, as stated, fails on a cache hit. The targets 599.9999 and 600.0001 round to the same
  key 600000. The candidates of the exponents -6 (1024/729, about 588.27 cents) and 6
  (729/512, about 611.73 cents) lie symmetrically around 600, so the first target is
  nearer to the former and the second to the latter. After a lookup of 599.9999 from an
  empty cache, the lookup of 600.0001 returns the stored fraction 1024/729, which does not
  minimise the error for 600.0001.
\<close>

theorem nearestPythagorean_cache_counterexample:
  "p_fraction (fst (nearestPythagorean
      (snd (nearestPythagorean Map.empty (5999999 / 10000))) (6000001 / 10000))) = ''1024/729'' \<and>
   6 \<in> {- 11 .. 11 :: int} \<and>
   \<bar>signedDelta (6000001 / 10000) (pyth_cents 6)\<bar> <
     \<bar>signedDelta (6000001 / 10000)
        (p_cents (fst (nearestPythagorean
           (snd (nearestPythagorean Map.empty (5999999 / 10000))) (6000001 / 10000))))\<bar>"
proof -
  let ?t0 = "5999999 / 10000 :: real"
  let ?t1 = "6000001 / 10000 :: real"
  let ?res = "pyth_result ?t0 (- 6)"
  have "\<lfloor>(6000004::real) / 10\<rfloor> = 600000" by linarith
  then have k0: "Math_round (5999999 / 10000 * 1000) = 600000"
    by (simp add: Math_round_def)
  have "\<lfloor>(6000006::real) / 10\<rfloor> = 600000" by linarith
  then have k1: "Math_round (6000001 / 10000 * 1000) = 600000"
    by (simp add: Math_round_def)
  have n0: "nearestPythagorean Map.empty (5999999 / 10000) =
      (pyth_search (5999999 / 10000),
       [Math_round (5999999 / 10000 * 1000) \<mapsto> pyth_search (5999999 / 10000)])"
    by (rule nearestPythagorean_miss) simp
  have c0: "snd (nearestPythagorean Map.empty (5999999 / 10000)) = [600000 \<mapsto> ?res]"
    unfolding n0 k0 pyth_search_599_9999 by (rule snd_conv)
  have r1: "fst (nearestPythagorean
      (snd (nearestPythagorean Map.empty (5999999 / 10000))) (6000001 / 10000)) = ?res"
    unfolding c0
    by (subst nearestPythagorean_hit [where hit = ?res]) (simp_all only: k1 fun_upd_same fst_conv)
  have f: "p_fraction ?res = ''1024/729''"
    by (simp add: pyth_result_def pyth_fraction_m6)
  have c: "p_cents ?res = pyth_cents (- 6)"
    by (simp add: pyth_result_def)
  have r: "599 < ?t1" "?t1 < 601" by simp_all
  note e = pyth_err_around_600 [OF r]
  have "pyth_err ?t1 6 < pyth_err ?t1 (- 6)"
    unfolding e(1,2) by simp
  then have "\<bar>signedDelta ?t1 (pyth_cents 6)\<bar> < \<bar>signedDelta ?t1 (p_cents ?res)\<bar>"
    unfolding c pyth_err_def .
  then show ?thesis
    unfolding r1 using f by simp
qed


lemma pyth_a_powi: "pyth_a b = \<lfloor>log2 (3 powi b)\<rfloor>"
  by (simp add: pyth_a_def Math_pow_powi)

lemma pyth_cents_powi: "pyth_cents b = toCents (3 powi b / 2 powi \<lfloor>log2 (3 powi b)\<rfloor>)"
  by (simp add: pyth_cents_eq pyth_ratio_powi pyth_a_powi)

lemma pyth_fraction_coprime:
  "\<exists>n d. 0 < n \<and> 0 < d \<and> coprime n d \<and> of_int n / of_int d = pyth_ratio b \<and>
     pyth_fraction (pyth_best t b) = showInt n @ ''/'' @ showInt d"
proof (cases "0 \<le> b")
  case True
  show ?thesis
    by (rule exI [of _ "3 ^ nat b"], rule exI [of _ "2 ^ nat (pyth_a b)"])
       (use True in \<open>simp add: coprime_3_2_pow pyth_ratio_fraction pyth_fraction_best\<close>)
next
  case False
  show ?thesis
    by (rule exI [of _ "2 ^ nat (- pyth_a b)"], rule exI [of _ "3 ^ nat (- b)"])
       (use False in \<open>simp add: coprime_3_2_pow pyth_ratio_fraction pyth_fraction_best\<close>)
qed

text \<open>
  C3, amended. On a cache miss (no entry stored under the key \<open>round (1000 target)\<close>),
  \<open>nearestPythagorean\<close> returns the candidate of an exponent \<open>b\<close> between -11 and 11:
  the ratio \<open>3^b / 2^a\<close> with \<open>a = \<lfloor>log2 (3^b)\<rfloor>\<close>, which lies in the range from 1
  (included) to 2 (excluded), its cents, which minimise \<open>\<bar>signedDelta target cents\<bar>\<close> over
  the candidates of all exponents from -11 to 11, and the fraction string \<open>n/d\<close> of
  positive coprime integers \<open>n\<close> and \<open>d\<close> whose quotient is that ratio. On a cache hit it
  returns the stored result. With an empty cache the target 701.955 gives the fraction
  string \<open>3/2\<close>.
\<close>

theorem nearestPythagorean_spec:
  "(cache (Math_round (t * 1000)) = None \<longrightarrow>
      (\<exists>b \<in> {- 11 .. 11}. \<exists>n d.
         p_ratio (fst (nearestPythagorean cache t)) = 3 powi b / 2 powi \<lfloor>log2 (3 powi b)\<rfloor> \<and>
         1 \<le> p_ratio (fst (nearestPythagorean cache t)) \<and>
         p_ratio (fst (nearestPythagorean cache t)) < 2 \<and>
         p_cents (fst (nearestPythagorean cache t)) =
           toCents (p_ratio (fst (nearestPythagorean cache t))) \<and>
         (\<forall>b' \<in> {- 11 .. 11}.
            \<bar>signedDelta t (p_cents (fst (nearestPythagorean cache t)))\<bar> \<le>
            \<bar>signedDelta t (toCents (3 powi b' / 2 powi \<lfloor>log2 (3 powi b')\<rfloor>))\<bar>) \<and>
         0 < n \<and> 0 < d \<and> coprime n d \<and>
         of_int n / of_int d = p_ratio (fst (nearestPythagorean cache t)) \<and>
         p_fraction (fst (nearestPythagorean cache t)) = showInt n @ ''/'' @ showInt d)) \<and>
   (\<forall>hit. cache (Math_round (t * 1000)) = Some hit \<longrightarrow>
      fst (nearestPythagorean cache t) = hit) \<and>
   p_fraction (fst (nearestPythagorean Map.empty (701955 / 1000))) = ''3/2''"
proof (intro conjI impI allI)
  assume miss: "cache (Math_round (t * 1000)) = None"
  let ?r = "fst (nearestPythagorean cache t)"
  obtain b where b: "b \<in> {- 11 .. 11}"
    and r: "pyth_search t = pyth_result t b"
    and m: "\<forall>b' \<in> {- 11 .. 11}. pyth_err t b \<le> pyth_err t b'"
    using pyth_search_first_min by blast
  have res: "?r = pyth_result t b"
    using miss r by (simp add: nearestPythagorean_miss)
  obtain n d where nd: "0 < n" "0 < d" "coprime n d" "of_int n / of_int d = pyth_ratio b"
    "pyth_fraction (pyth_best t b) = showInt n @ ''/'' @ showInt d"
    using pyth_fraction_coprime by blast
  have 1: "p_ratio ?r = 3 powi b / 2 powi \<lfloor>log2 (3 powi b)\<rfloor>"
    by (simp add: res pyth_result_def pyth_ratio_powi pyth_a_powi)
  have 2: "1 \<le> p_ratio ?r \<and> p_ratio ?r < 2"
    using pyth_ratio_range [of b] by (simp add: res pyth_result_def)
  have 3: "p_cents ?r = toCents (p_ratio ?r)"
    by (simp add: res pyth_result_def pyth_cents_eq)
  have 4: "\<forall>b' \<in> {- 11 .. 11}.
            \<bar>signedDelta t (p_cents ?r)\<bar> \<le>
            \<bar>signedDelta t (toCents (3 powi b' / 2 powi \<lfloor>log2 (3 powi b')\<rfloor>))\<bar>"
    using m unfolding pyth_err_def pyth_cents_powi [symmetric]
    by (simp add: res pyth_result_def)
  have 5: "of_int n / of_int d = p_ratio ?r"
    using nd(4) by (simp add: res pyth_result_def)
  have 6: "p_fraction ?r = showInt n @ ''/'' @ showInt d"
    using nd(5) by (simp add: res pyth_result_def)
  show "\<exists>b \<in> {- 11 .. 11}. \<exists>n d.
         p_ratio ?r = 3 powi b / 2 powi \<lfloor>log2 (3 powi b)\<rfloor> \<and>
         1 \<le> p_ratio ?r \<and> p_ratio ?r < 2 \<and>
         p_cents ?r = toCents (p_ratio ?r) \<and>
         (\<forall>b' \<in> {- 11 .. 11}.
            \<bar>signedDelta t (p_cents ?r)\<bar> \<le>
            \<bar>signedDelta t (toCents (3 powi b' / 2 powi \<lfloor>log2 (3 powi b')\<rfloor>))\<bar>) \<and>
         0 < n \<and> 0 < d \<and> coprime n d \<and>
         of_int n / of_int d = p_ratio ?r \<and>
         p_fraction ?r = showInt n @ ''/'' @ showInt d"
    using b 1 2 3 4 5 6 nd(1,2,3) by blast
next
  fix hit assume "cache (Math_round (t * 1000)) = Some hit"
  then show "fst (nearestPythagorean cache t) = hit"
    by (simp add: nearestPythagorean_hit)
next
  show "p_fraction (fst (nearestPythagorean Map.empty (701955 / 1000))) = ''3/2''"
    by (simp add: nearestPythagorean_miss pyth_search_701_955 [simplified] pyth_result_def
          pyth_fraction_1)
qed

theorem nearestPythagorean_spec_witness:
  "p_fraction (fst (nearestPythagorean Map.empty (701955 / 1000))) = ''3/2'' \<and>
   (\<exists>b. - 11 \<le> b \<and> b \<le> 11 \<and>
        p_ratio (fst (nearestPythagorean Map.empty 0)) = 3 powi b / 2 powi \<lfloor>log2 (3 powi b)\<rfloor>) \<and>
   fst (nearestPythagorean [0 \<mapsto> pyth_result 7 1] 0) = pyth_result 7 1"
proof -
  have k: "Math_round (0 * 1000) = 0"
    by (simp add: Math_round_def)
  have a: "p_fraction (fst (nearestPythagorean Map.empty (701955 / 1000))) = ''3/2''"
    using nearestPythagorean_spec [of Map.empty 0] by blast
  have b: "\<exists>b. - 11 \<le> b \<and> b \<le> 11 \<and>
        p_ratio (fst (nearestPythagorean Map.empty 0)) = 3 powi b / 2 powi \<lfloor>log2 (3 powi b)\<rfloor>"
    using nearestPythagorean_spec [of Map.empty 0] by auto
  have c: "fst (nearestPythagorean [0 \<mapsto> pyth_result 7 1] 0) = pyth_result 7 1"
    using nearestPythagorean_spec [of "[0 \<mapsto> pyth_result 7 1]" 0] k by simp
  from a b c show ?thesis by blast
qed

section \<open>The interval comparator\<close>





















lemma trims: "js_trim ''C4'' = ''C4''" "js_trim ''E4'' = ''E4''" "js_trim ''D4'' = ''D4''"
  by code_simp+

lemma commas: "replace_comma ''C4'' = ''C4''" "replace_comma ''E4'' = ''E4''" "replace_comma ''D4'' = ''D4''"
  by code_simp+

lemma numbers: "Number ''C4'' = NaN" "Number ''E4'' = NaN" "Number ''D4'' = NaN"
  by code_simp+

lemma matches:
  "note_match ''C4'' = Some (CHR ''C'', [], ''4'')"
  "note_match ''E4'' = Some (CHR ''E'', [], ''4'')"
  "note_match ''D4'' = Some (CHR ''D'', [], ''4'')"
  by code_simp+

lemma uppers: "toUpperCase CHR ''C'' = CHR ''C''" "toUpperCase CHR ''E'' = CHR ''E''"
  "toUpperCase CHR ''D'' = CHR ''D''"
  by code_simp+

lemma indices: "map_of NOTE_INDEX ''C'' = Some 0" "map_of NOTE_INDEX ''E'' = Some 4"
  "map_of NOTE_INDEX ''D'' = Some 2"
  by code_simp+

lemma octaves: "parseInt10 ''4'' = Some 4" "showInt 4 = ''4''"
  by code_simp+


lemmas note_facts = trims commas numbers matches uppers indices octaves

lemma parse_C4:
  "parseNoteOrHz ''C4'' a =
     \<lparr>freq = Some (Finite (a * Math_pow 2 (- 3 / 4))), label = ''C4'', midi = Some 60, pc = Some 0\<rparr>"
  by (simp add: parseNoteOrHz_def note_facts Let_def jsi_rem_def isNaN_def js_positive_def)

lemma parse_E4:
  "parseNoteOrHz ''E4'' a =
     \<lparr>freq = Some (Finite (a * Math_pow 2 (- 5 / 12))), label = ''E4'', midi = Some 64, pc = Some 4\<rparr>"
  by (simp add: parseNoteOrHz_def note_facts Let_def jsi_rem_def isNaN_def js_positive_def)

lemma parse_D4:
  "parseNoteOrHz ''D4'' a =
     \<lparr>freq = Some (Finite (a * Math_pow 2 (- 7 / 12))), label = ''D4'', midi = Some 62, pc = Some 2\<rparr>"
  by (simp add: parseNoteOrHz_def note_facts Let_def jsi_rem_def isNaN_def js_positive_def)


lemma fFund_C4: "Comparador_fFund ''C4'' 440 = Finite (440 * Math_pow 2 (- 3 / 4))"
  by (simp add: Comparador_fFund_def parse_C4)




lemma parse_Infinity_record:
  "parseNoteOrHz ''Infinity'' a =
     \<lparr>freq = Some PosInfinity, label = ''Infinity Hz'', midi = None, pc = None\<rparr>"
proof -
  have "js_trim ''Infinity'' = ''Infinity''" "replace_comma ''Infinity'' = ''Infinity''"
    "Number ''Infinity'' = PosInfinity"
    by code_simp+
  then show ?thesis
    by (simp add: parseNoteOrHz_def Let_def isNaN_def js_positive_def Number_toFixed_def
        nonFiniteName_def)
qed





text \<open>
  In the application the positions are those of \<open>werckmeisterIIIPositions\<close> and the caches
  start empty, so the Werckmeister matcher is ready, and it stays ready after every row.
\<close>

lemma w3_ready_application:
  "c_w3Positions P = werckmeisterIIIPositions \<Longrightarrow> w3_ready P empty_caches"
  by (simp add: w3_ready_def empty_caches_def werckmeisterIIIPositions_closed)

text \<open>
  The row of the target \<open>Infinity\<close> in the system Just: its cents are \<open>NaN\<close>, no entry of
  the table is compared successfully, and the projection is the initial \<open>best\<close> of
  \<open>nearestJust\<close>.
\<close>

lemma Comparador_infinite_target:
  "rows_of (Comparador_rows (scenario_props False) empty_caches [''Infinity'']) =
     [\<lparr>target = ''Infinity Hz'', hzTarget = PosInfinity, centsEI = NaN, ratioRed = NaN,
       sysName = [], sysFrac = ''1/1'', sysCents = Finite 0,
       sysHz = Finite (440 * Math_pow 2 (- 3 / 4)), dev = NaN,
       distFrac = None, distCents = None\<rparr>]"
proof -
  have s: "showInt 1 = ''1''" by code_simp
  have g: "0 < 440 * Math_pow 2 (- 3 / 4)" by (simp add: Math_pow_def)
  show ?thesis
    using g
    by (simp add: Comparador_rows_def rows_of_def Let_def parse_Infinity_record js_falsy_def
        scenario_props_def fFund_C4 rows_body_def log2_number_def Math_floor_def Math_pow_2_def
        toCents_number_def project_def nearestJust_number_def empty_caches_def
        signedDelta_number_def distance_def s)
qed

lemma note_ratio:
  "a \<noteq> 0 \<Longrightarrow> (a * Math_pow 2 y) / (a * Math_pow 2 y0) = Math_pow 2 (y - y0)"
  by (simp add: Math_pow_def powr_diff)

lemma log2_Math_pow_2: "log2 (Math_pow 2 z) = z"
  by (simp add: log2_Math_pow log2_2)

lemma toCents_Math_pow_2: "toCents (Math_pow 2 z) = 1200 * z"
  by (simp add: toCents_eq log2_Math_pow_2)

lemma octave_reduce_finite:
  assumes "0 < f" "0 < g"
  shows "toCents_number (js_div (js_div (Finite f) (Finite g))
           (Math_pow_2 (Math_floor (log2_number (js_div (Finite f) (Finite g)))))) =
         Finite (toCents (f / g / Math_pow 2 (of_int \<lfloor>log2 (f / g)\<rfloor>)))"
  using assms
  by (simp add: log2_number_def Math_floor_def Math_pow_2_def toCents_number_def Math_pow_def)

lemma cents_E4:
  "toCents ((440 * Math_pow 2 (- 5 / 12)) / (440 * Math_pow 2 (- 3 / 4)) /
      Math_pow 2 (of_int \<lfloor>log2 ((440 * Math_pow 2 (- 5 / 12)) / (440 * Math_pow 2 (- 3 / 4)))\<rfloor>)) = 400"
proof -
  have r: "(440 * Math_pow 2 (- 5 / 12)) / (440 * Math_pow 2 (- 3 / 4)) = Math_pow 2 (1 / 3)"
    by (subst note_ratio) simp_all
  have f: "\<lfloor>(1::real) / 3\<rfloor> = 0" by simp
  have o: "Math_pow 2 (of_int 0) = 1" by (simp add: Math_pow_def)
  show ?thesis
    unfolding r log2_Math_pow_2 f o by (simp add: toCents_Math_pow_2)
qed

lemma cents_D4:
  "toCents ((440 * Math_pow 2 (- 7 / 12)) / (440 * Math_pow 2 (- 3 / 4)) /
      Math_pow 2 (of_int \<lfloor>log2 ((440 * Math_pow 2 (- 7 / 12)) / (440 * Math_pow 2 (- 3 / 4)))\<rfloor>)) = 200"
proof -
  have r: "(440 * Math_pow 2 (- 7 / 12)) / (440 * Math_pow 2 (- 3 / 4)) = Math_pow 2 (1 / 6)"
    by (subst note_ratio) simp_all
  have f: "\<lfloor>(1::real) / 6\<rfloor> = 0" by simp
  have o: "Math_pow 2 (of_int 0) = 1" by (simp add: Math_pow_def)
  show ?thesis
    unfolding r log2_Math_pow_2 f o by (simp add: toCents_Math_pow_2)
qed

lemma distance_none: "distance pj None rf = (None, None)"
  by (simp add: distance_def)

lemma floor_log2_9_10: "\<lfloor>log2 (9 / 10)\<rfloor> = - 1"
proof -
  have "log 2 (1 / 2) \<le> log 2 (9 / 10)"
    by (subst log_le_cancel_iff) simp_all
  moreover have "log 2 (9 / 10) < log 2 1"
    by (subst log_less_cancel_iff) simp_all
  moreover have "log 2 (1 / 2) = - 1"
    by (simp add: log_divide)
  ultimately have "- 1 \<le> log2 (9 / 10) \<and> log2 (9 / 10) < 0"
    by (simp add: log2_eq_log)
  then show ?thesis by linarith
qed

lemma reduceFraction_36_40: "reduceFraction 36 40 = (9, 10)"
  by code_simp

lemma showInt_4_ok: "showInt 4 = ''4''"
  by code_simp

lemma show_9_10: "showInt 9 = ''9''" "showInt 10 = ''10''" "showInt 5 = ''5''" "showInt 8 = ''8''"
  by code_simp+

lemma distance_D_over_E:
  assumes "pj_fracPair pj = Some (9, 8)"
  shows "distance pj (Some rr) (Some (5, 4)) = (Some ''9/10'', Some (Finite (toCents (9 / 5))))"
proof -
  have d: "Math_pow 2 (- 1) = 1 / 2"
    by (simp add: Math_pow_def powr_minus inverse_eq_divide)
  show ?thesis
    using assms
    by (simp add: distance_def reduceFraction_36_40 floor_log2_9_10 Let_def show_9_10 d
        log2_number_def Math_floor_def Math_pow_2_def toCents_number_def)
qed


lemma rows_body_Just:
  assumes s: "c_sys P = Just"
    and c: "toCents_number (js_div (js_div f (c_fFund P))
              (Math_pow_2 (Math_floor (log2_number (js_div f (c_fFund P)))))) = Finite cents"
    and n: "nearestJust (justCache (st_caches st)) cents = (j, jc)"
    and q: "snd (j_frac j) \<noteq> 0"
    and d: "distance
              \<lparr>pj_ratio = Finite (of_int (fst (j_frac j)) / of_int (snd (j_frac j))),
               pj_cents = Finite (j_cents j), pj_name = j_name j,
               pj_frac = showInt (fst (j_frac j)) @ ''/'' @ showInt (snd (j_frac j)),
               pj_fracPair = Some (j_frac j)\<rparr>
              (if c_distMode P = Previous then prevSysRatio st else firstSysRatio st)
              (if c_distMode P = Previous then prevFrac st else firstFrac st) = (df, dc)"
  shows "\<exists>r. rows_body P st t res f =
           Inr \<lparr>out = out st @ [r],
                firstSysRatio =
                  (if firstSysRatio st = None
                   then Some (Finite (of_int (fst (j_frac j)) / of_int (snd (j_frac j))))
                   else firstSysRatio st),
                firstFrac = (if firstSysRatio st = None then Some (j_frac j) else firstFrac st),
                prevSysRatio = Some (Finite (of_int (fst (j_frac j)) / of_int (snd (j_frac j)))),
                prevFrac = Some (j_frac j),
                st_caches = (st_caches st)\<lparr>justCache := jc\<rparr>\<rparr> \<and>
           target r = (if label res \<noteq> [] then label res else t) \<and>
           hzTarget r = f \<and> centsEI r = Finite cents \<and> sysName r = j_name j \<and>
           sysFrac r = showInt (fst (j_frac j)) @ ''/'' @ showInt (snd (j_frac j)) \<and>
           sysCents r = Finite (j_cents j) \<and> distFrac r = df \<and> distCents r = dc"
proof -
  have p: "project Just (c_w3Positions P) (st_caches st) (Finite cents) =
      Inr (\<lparr>pj_ratio = Finite (of_int (fst (j_frac j)) / of_int (snd (j_frac j))),
               pj_cents = Finite (j_cents j), pj_name = j_name j,
               pj_frac = showInt (fst (j_frac j)) @ ''/'' @ showInt (snd (j_frac j)),
               pj_fracPair = Some (j_frac j)\<rparr>, (st_caches st)\<lparr>justCache := jc\<rparr>)"
    using q by (simp add: project_def nearestJust_number_def n)
  show ?thesis
  proof (cases "c_distMode P = Previous")
    case True
    then have d': "distance
              \<lparr>pj_ratio = Finite (of_int (fst (j_frac j)) / of_int (snd (j_frac j))),
               pj_cents = Finite (j_cents j), pj_name = j_name j,
               pj_frac = showInt (fst (j_frac j)) @ ''/'' @ showInt (snd (j_frac j)),
               pj_fracPair = Some (j_frac j)\<rparr>
              (prevSysRatio st) (prevFrac st) = (df, dc)"
      using d by simp
    show ?thesis
      unfolding rows_body_def Let_def c s p
      using True d' by simp
  next
    case False
    then have d': "distance
              \<lparr>pj_ratio = Finite (of_int (fst (j_frac j)) / of_int (snd (j_frac j))),
               pj_cents = Finite (j_cents j), pj_name = j_name j,
               pj_frac = showInt (fst (j_frac j)) @ ''/'' @ showInt (snd (j_frac j)),
               pj_fracPair = Some (j_frac j)\<rparr>
              (firstSysRatio st) (firstFrac st) = (df, dc)"
      using d by simp
    show ?thesis
      unfolding rows_body_def Let_def c s p
      using False d' by simp
  qed
qed


lemma key_400: "Math_round 400000 = 400000"
  by (simp add: Math_round_def)

lemma key_200: "Math_round 200000 = 200000"
  by (simp add: Math_round_def)

lemma just_result_5: "just_result (JUST_SET ! 5) =
    \<lparr>j_name = ''5/4 (3M)'', j_frac = (5, 4), j_cents = 1200 * (log2 5 - 2)\<rparr>"
  by (simp add: just_result_def JUST_SET_def just_cents_fracs)

lemma just_result_3: "just_result (JUST_SET ! 3) =
    \<lparr>j_name = ''9/8 (2M)'', j_frac = (9, 8), j_cents = 1200 * (2 * log2 3 - 3)\<rparr>"
  by (simp add: just_result_def JUST_SET_def just_cents_fracs)

lemma scenario_rows:
  "\<exists>r1 r2 cs'.
     Comparador_rows (scenario_props ro) empty_caches [''E4'', ''D4''] = Inr ([r1, r2], cs') \<and>
     target r1 = ''E4'' \<and> sysFrac r1 = ''5/4'' \<and> distFrac r1 = None \<and> distCents r1 = None \<and>
     target r2 = ''D4'' \<and> sysFrac r2 = ''9/8'' \<and> distFrac r2 = Some ''9/10'' \<and>
     distCents r2 = Some (Finite (toCents (9 / 5)))"
proof -
  let ?P = "scenario_props ro"
  let ?st0 = "\<lparr>out = [], firstSysRatio = None, firstFrac = None,
              prevSysRatio = None, prevFrac = None, st_caches = empty_caches\<rparr>"
  let ?jE = "just_result (JUST_SET ! 5)"
  let ?jD = "just_result (JUST_SET ! 3)"
  let ?c1 = "[400000 \<mapsto> ?jE] :: int \<rightharpoonup> justRes"
  let ?g = "440 * Math_pow 2 (- 3 / 4) :: real"
  have P: "c_sys ?P = Just" "c_distMode ?P = Previous" "c_a4 ?P = 440"
    "c_fFund ?P = Finite ?g"
    by (simp_all add: scenario_props_def fFund_C4)
  let ?fE = "440 * Math_pow 2 (- 5 / 12) :: real"
  let ?fD = "440 * Math_pow 2 (- 7 / 12) :: real"
  have fE: "0 < ?fE" and fD: "0 < ?fD" and g: "0 < ?g"
    by (simp_all add: Math_pow_def)
  have cE: "toCents_number (js_div (js_div (Finite ?fE) (c_fFund ?P))
              (Math_pow_2 (Math_floor (log2_number (js_div (Finite ?fE) (c_fFund ?P)))))) =
            Finite 400"
    unfolding P(4) octave_reduce_finite [OF fE g] cents_E4 ..
  have cD: "toCents_number (js_div (js_div (Finite ?fD) (c_fFund ?P))
              (Math_pow_2 (Math_floor (log2_number (js_div (Finite ?fD) (c_fFund ?P)))))) =
            Finite 200"
    unfolding P(4) octave_reduce_finite [OF fD g] cents_D4 ..
  have qE: "snd (j_frac ?jE) \<noteq> 0" by (simp add: just_result_5)
  have qD: "snd (j_frac ?jD) \<noteq> 0" by (simp add: just_result_3)
  \<comment> \<open>first row\<close>
  have nE: "nearestJust (justCache (st_caches ?st0)) 400 = (?jE, ?c1)"
    by (simp add: empty_caches_def nearestJust_miss key_400 just_search_400)
  have dE: "distance
              \<lparr>pj_ratio = Finite (of_int (fst (j_frac ?jE)) / of_int (snd (j_frac ?jE))),
               pj_cents = Finite (j_cents ?jE), pj_name = j_name ?jE,
               pj_frac = showInt (fst (j_frac ?jE)) @ ''/'' @ showInt (snd (j_frac ?jE)),
               pj_fracPair = Some (j_frac ?jE)\<rparr>
              (if c_distMode ?P = Previous then prevSysRatio ?st0 else firstSysRatio ?st0)
              (if c_distMode ?P = Previous then prevFrac ?st0 else firstFrac ?st0) = (None, None)"
    by (simp add: distance_none)
  obtain r1 where b1: "rows_body ?P ?st0 ''E4'' (parseNoteOrHz ''E4'' 440) (Finite ?fE) =
           Inr \<lparr>out = out ?st0 @ [r1],
                firstSysRatio =
                  (if firstSysRatio ?st0 = None
                   then Some (Finite (of_int (fst (j_frac ?jE)) / of_int (snd (j_frac ?jE))))
                   else firstSysRatio ?st0),
                firstFrac = (if firstSysRatio ?st0 = None then Some (j_frac ?jE) else firstFrac ?st0),
                prevSysRatio = Some (Finite (of_int (fst (j_frac ?jE)) / of_int (snd (j_frac ?jE)))),
                prevFrac = Some (j_frac ?jE),
                st_caches = (st_caches ?st0)\<lparr>justCache := ?c1\<rparr>\<rparr>"
    and t1: "target r1 = (if label (parseNoteOrHz ''E4'' 440) \<noteq> [] then label (parseNoteOrHz ''E4'' 440) else ''E4'')"
    and s1: "sysFrac r1 = showInt (fst (j_frac ?jE)) @ ''/'' @ showInt (snd (j_frac ?jE))"
    and d1: "distFrac r1 = None" "distCents r1 = None"
    using rows_body_Just [OF P(1) cE nE qE dE, of "''E4''" "parseNoteOrHz ''E4'' 440"]
    by blast
  let ?st1 = "\<lparr>out = [r1], firstSysRatio = Some (Finite (5 / 4)), firstFrac = Some (5, 4),
              prevSysRatio = Some (Finite (5 / 4)), prevFrac = Some (5, 4),
              st_caches = empty_caches\<lparr>justCache := ?c1\<rparr>\<rparr>"
  have b1': "rows_body ?P ?st0 ''E4'' (parseNoteOrHz ''E4'' 440) (Finite ?fE) = Inr ?st1"
    unfolding b1 by (simp add: just_result_5)
  \<comment> \<open>second row\<close>
  have nD: "nearestJust (justCache (st_caches ?st1)) 200 = (?jD, ?c1(200000 \<mapsto> ?jD))"
    by (simp add: nearestJust_miss key_200 just_search_200)
  have dD: "distance
              \<lparr>pj_ratio = Finite (of_int (fst (j_frac ?jD)) / of_int (snd (j_frac ?jD))),
               pj_cents = Finite (j_cents ?jD), pj_name = j_name ?jD,
               pj_frac = showInt (fst (j_frac ?jD)) @ ''/'' @ showInt (snd (j_frac ?jD)),
               pj_fracPair = Some (j_frac ?jD)\<rparr>
              (if c_distMode ?P = Previous then prevSysRatio ?st1 else firstSysRatio ?st1)
              (if c_distMode ?P = Previous then prevFrac ?st1 else firstFrac ?st1) =
            (Some ''9/10'', Some (Finite (toCents (9 / 5))))"
    unfolding P(2) by (simp add: distance_D_over_E just_result_3)
  obtain r2 st2 where b2: "rows_body ?P ?st1 ''D4'' (parseNoteOrHz ''D4'' 440) (Finite ?fD) = Inr st2"
    and o2: "out st2 = out ?st1 @ [r2]"
    and t2: "target r2 = (if label (parseNoteOrHz ''D4'' 440) \<noteq> [] then label (parseNoteOrHz ''D4'' 440) else ''D4'')"
    and s2: "sysFrac r2 = showInt (fst (j_frac ?jD)) @ ''/'' @ showInt (snd (j_frac ?jD))"
    and d2: "distFrac r2 = Some ''9/10''" "distCents r2 = Some (Finite (toCents (9 / 5)))"
    using rows_body_Just [OF P(1) cD nD qD dD, of "''D4''" "parseNoteOrHz ''D4'' 440"]
    by force
  have l2: "rows_loop ?P [''D4''] ?st1 = Inr st2"
    using fD b2 by (simp add: P(3) parse_D4 Let_def js_falsy_def)
  have l1: "rows_loop ?P [''E4'', ''D4''] ?st0 = Inr st2"
    using fE l2 b1' by (simp add: P(3) parse_E4 Let_def js_falsy_def)
  have "Comparador_rows ?P empty_caches [''E4'', ''D4''] = Inr ([r1, r2], st_caches st2)"
    unfolding Comparador_rows_def l1 by (simp add: o2)
  moreover have "target r1 = ''E4''" using t1 by (simp add: parse_E4)
  moreover have "target r2 = ''D4''" using t2 by (simp add: parse_D4)
  moreover have "sysFrac r1 = ''5/4''" using s1 by (simp add: just_result_5 show_9_10 showInt_4_ok)
  moreover have "sysFrac r2 = ''9/8''" using s2 by (simp add: just_result_3 show_9_10)
  ultimately show ?thesis using d1 d2 by blast
qed


lemma scenario_fields:
  "map target (rows_of (Comparador_rows (scenario_props ro) empty_caches [''E4'', ''D4''])) =
     [''E4'', ''D4''] \<and>
   map sysFrac (rows_of (Comparador_rows (scenario_props ro) empty_caches [''E4'', ''D4''])) =
     [''5/4'', ''9/8''] \<and>
   map distFrac (rows_of (Comparador_rows (scenario_props ro) empty_caches [''E4'', ''D4''])) =
     [None, Some ''9/10''] \<and>
   map distCents (rows_of (Comparador_rows (scenario_props ro) empty_caches [''E4'', ''D4''])) =
     [None, Some (Finite (toCents (9 / 5)))]"
proof -
  obtain r1 r2 cs' where
    "Comparador_rows (scenario_props ro) empty_caches [''E4'', ''D4''] = Inr ([r1, r2], cs')"
    "target r1 = ''E4''" "sysFrac r1 = ''5/4''" "distFrac r1 = None" "distCents r1 = None"
    "target r2 = ''D4''" "sysFrac r2 = ''9/8''" "distFrac r2 = Some ''9/10''"
    "distCents r2 = Some (Finite (toCents (9 / 5)))"
    using scenario_rows [of ro] by blast
  then show ?thesis by (simp add: rows_of_def)
qed

lemma fFund_C4_approx:
  "26162 / 100 < 440 * Math_pow 2 (- 3 / 4) \<and> 440 * Math_pow 2 (- 3 / 4) < 26163 / 100"
proof -
  let ?f = "440 * Math_pow 2 (- 3 / 4) :: real"
  have p: "0 < ?f" by (simp add: Math_pow_def)
  have "(Math_pow 2 (- 3 / 4)) ^ 4 = 2 powr (- 3)"
    unfolding Math_pow_def by (subst powr_realpow [symmetric]) (simp_all add: powr_powr)
  also have "\<dots> = 1 / 8"
    by (simp add: powr_minus inverse_eq_divide)
  finally have f4: "?f ^ 4 = 4685120000"
    by (simp add: power_mult_distrib)
  have lo: "26162 / 100 < ?f"
  proof (rule ccontr)
    assume "\<not> 26162 / 100 < ?f"
    then have "?f ^ 4 \<le> (26162 / 100) ^ 4"
      using p by (intro power_mono) auto
    then show False unfolding f4 by (simp add: power_divide)
  qed
  have hi: "?f < 26163 / 100"
  proof (rule ccontr)
    assume "\<not> ?f < 26163 / 100"
    then have "(26163 / 100) ^ 4 \<le> ?f ^ 4"
      by (intro power_mono) auto
    then show False unfolding f4 by (simp add: power_divide)
  qed
  from lo hi show ?thesis by blast
qed

text \<open>
  C7, as stated, fails in its second part. In the scenario the row of D4 holds the distance
  of D4 (9/8) over E4 (5/4), the fraction 9/10, whose octave-reduced ratio is 9/5 = 1.8 and
  not a value within 0.02 of 10/9.
\<close>

theorem Comparador_distance_counterexample:
  "map distCents (rows_of (Comparador_rows (scenario_props False) empty_caches [''E4'', ''D4''])) =
     [None, Some (Finite (toCents (9 / 5)))] \<and>
   fromCents (toCents (9 / 5)) = 9 / 5 \<and>
   2 / 100 < \<bar>fromCents (toCents (9 / 5)) - 10 / 9\<bar>"
proof -
  have "fromCents (toCents (9 / 5)) = 9 / 5"
    by (rule fromCents_toCents) simp
  then show ?thesis
    using scenario_fields [of False] by simp
qed

text \<open>
  C7, amended. With fundamental C4 (between 261.62 and 261.63 Hz), targets E4 and D4,
  system Just, distance mode previous and no cached results, the comparator makes two rows.
  The row of E4 is projected to 5/4 and has no distance fraction and no distance cents. The
  row of D4 is projected to 9/8; its distance to the previous target is the fraction 9/10
  and the cents of the octave-reduced ratio 9/5, the octave complement of 10/9.
\<close>

theorem Comparador_scenario:
  "map target (rows_of (Comparador_rows (scenario_props ro) empty_caches [''E4'', ''D4''])) =
     [''E4'', ''D4''] \<and>
   map sysFrac (rows_of (Comparador_rows (scenario_props ro) empty_caches [''E4'', ''D4''])) =
     [''5/4'', ''9/8''] \<and>
   map distFrac (rows_of (Comparador_rows (scenario_props ro) empty_caches [''E4'', ''D4''])) =
     [None, Some ''9/10''] \<and>
   map distCents (rows_of (Comparador_rows (scenario_props ro) empty_caches [''E4'', ''D4''])) =
     [None, Some (Finite (toCents (9 / 5)))] \<and>
   \<bar>fromCents (toCents (9 / 5)) - 9 / 5\<bar> \<le> 2 / 100 \<and>
   (\<exists>g. c_fFund (scenario_props ro) = Finite g \<and> 26162 / 100 < g \<and> g < 26163 / 100)"
proof -
  have "fromCents (toCents (9 / 5)) = 9 / 5"
    by (rule fromCents_toCents) simp
  then show ?thesis
    using scenario_fields [of ro] fFund_C4_approx by (simp add: scenario_props_def fFund_C4)
qed

end
